theory Spec2Isabelle
  imports Complex_Main "HOL-Library.Word"
begin

unbundle bit_operations_syntax

section \<open>Common data: identifiers, byte buffers, typed-array views\<close>

text \<open>
  A \<open>Uint64\<close> of the source is a pair of 32-bit halves \<open>(low, high)\<close> that is
  compared and cloned by value. It is modelled as one 64-bit word; \<open>Uint64_of\<close> is the
  constructor \<open>new Uint64(low, high)\<close>.
\<close>

type_synonym Uint64 = "64 word"
type_synonym byte = "8 word"
type_synonym ArrayBuffer = "byte list"

definition Uint64_of :: "32 word \<Rightarrow> 32 word \<Rightarrow> Uint64" where
  "Uint64_of low high = ucast low OR push_bit 32 (ucast high)"

text \<open>Decimal rendering of a non-negative integer, as a template literal or \<open>String(x)\<close> prints it.\<close>

definition digit_char :: "nat \<Rightarrow> char" where
  "digit_char d = ''0123456789'' ! d"

fun string_of_nat :: "nat \<Rightarrow> string" where
  "string_of_nat n =
     (if n < 10 then [digit_char n]
      else string_of_nat (n div 10) @ [digit_char (n mod 10)])"

definition string_of_int :: "int \<Rightarrow> string" where
  "string_of_int i = (if i < 0 then CHR ''-'' # string_of_nat (nat (- i)) else string_of_nat (nat i))"

definition Uint64_toString :: "Uint64 \<Rightarrow> string" where
  "Uint64_toString x = string_of_nat (unat x)"

text \<open>
  Errors of the source are values. \<open>RangeError\<close> is what a typed-array or \<open>DataView\<close>
  constructor or accessor throws on a misaligned or out-of-range view, \<open>TypeError\<close> what
  iterating \<open>null\<close> throws; \<open>Error\<close> carries the
  message of a \<open>throw new Error(...)\<close>; \<open>HttpError\<close> is a failed transport;
  \<open>GRAPH_SERVER_NOT_SPECIFIED\<close> is the exported symbol of the graph client.
\<close>

datatype error =
    GRAPH_SERVER_NOT_SPECIFIED
  | HttpError nat
  | RangeError
  | TypeError
  | Error string

datatype Endianness = LITTLE | BIG

text \<open>
  A multi-byte typed array reads the buffer in the byte order of the host, which is the
  parameter \<open>native\<close> of the view functions (\<open>ENDIANNESS\<close> in the source's endian module).
\<close>

definition word32_of_bytes :: "Endianness \<Rightarrow> byte list \<Rightarrow> 32 word" where
  "word32_of_bytes native bs =
     (case (if native = LITTLE then bs else rev bs) of
        [b0, b1, b2, b3] \<Rightarrow>
          ucast b0 OR push_bit 8 (ucast b1) OR push_bit 16 (ucast b2) OR push_bit 24 (ucast b3)
      | _ \<Rightarrow> 0)"

fun words32_of_bytes :: "Endianness \<Rightarrow> byte list \<Rightarrow> 32 word list" where
  "words32_of_bytes native (b0 # b1 # b2 # b3 # bs) =
     word32_of_bytes native [b0, b1, b2, b3] # words32_of_bytes native bs"
| "words32_of_bytes native _ = []"

text \<open>
  \<open>new Uint32Array(buffer)\<close>: the whole buffer as 32-bit words; throws a \<open>RangeError\<close> when
  the byte length is not a multiple of 4.
\<close>

definition Uint32Array_whole :: "Endianness \<Rightarrow> ArrayBuffer \<Rightarrow> error + 32 word list" where
  "Uint32Array_whole native buffer =
     (if length buffer mod 4 \<noteq> 0 then Inl RangeError
      else Inr (words32_of_bytes native buffer))"

text \<open>
  \<open>a[i]\<close> on a \<open>Uint32Array\<close> is \<open>undefined\<close> out of range; passed to the
  \<open>Uint64\<close> constructor, whose parameters default to 0, it becomes 0.
\<close>

definition at_or_0 :: "32 word list \<Rightarrow> nat \<Rightarrow> 32 word" where
  "at_or_0 a i = (if i < length a then a ! i else 0)"

section \<open>Typed-array views and endian conversion\<close>

text \<open>
  A typed array is a view on a buffer: a byte offset and a byte length. Its elements are read
  from the buffer it aliases, so a later in-place change of the buffer shows through it.
\<close>

record view =
  byteOffset :: nat
  byteLength :: nat

text \<open>
  \<open>new Float32Array(buffer, byteOffset, length)\<close> and \<open>new Uint32Array(buffer, byteOffset
  [, length])\<close>: a \<open>RangeError\<close> when the offset is not a multiple of the element size 4;
  without a length, when the buffer's byte length is not a multiple of 4 or the offset lies
  beyond the buffer; with a length, when the view would end beyond the buffer.
\<close>

definition view32 :: "ArrayBuffer \<Rightarrow> nat \<Rightarrow> nat option \<Rightarrow> error + view" where
  "view32 buffer offset len =
     (if offset mod 4 \<noteq> 0 then Inl RangeError
      else case len of
        None \<Rightarrow>
          if length buffer mod 4 \<noteq> 0 \<or> length buffer < offset then Inl RangeError
          else Inr \<lparr>byteOffset = offset, byteLength = length buffer - offset\<rparr>
      | Some n \<Rightarrow>
          if length buffer < offset + 4 * n then Inl RangeError
          else Inr \<lparr>byteOffset = offset, byteLength = 4 * n\<rparr>)"

text \<open>\<open>new Uint8Array(buffer, byteOffset, length)\<close>.\<close>

definition view8 :: "ArrayBuffer \<Rightarrow> nat \<Rightarrow> nat \<Rightarrow> error + view" where
  "view8 buffer offset len =
     (if length buffer < offset + len then Inl RangeError
      else Inr \<lparr>byteOffset = offset, byteLength = len\<rparr>)"

definition view_bytes :: "ArrayBuffer \<Rightarrow> view \<Rightarrow> byte list" where
  "view_bytes buffer v = take (byteLength v) (drop (byteOffset v) buffer)"

definition view_words32 :: "Endianness \<Rightarrow> ArrayBuffer \<Rightarrow> view \<Rightarrow> 32 word list" where
  "view_words32 native buffer v = words32_of_bytes native (view_bytes buffer v)"

definition update_view :: "ArrayBuffer \<Rightarrow> view \<Rightarrow> (byte list \<Rightarrow> byte list) \<Rightarrow> ArrayBuffer" where
  "update_view buffer v f =
     take (byteOffset v) buffer @ f (view_bytes buffer v) @
     drop (byteOffset v + byteLength v) buffer"

text \<open>
  Modelled from the spec: the endian module (\<open>convertEndian16\<close>, \<open>convertEndian32\<close>) is not
  among the source files. The conversion is in place on the bytes of a view: when the
  byte order of the data differs from the host's, every complete 2-byte (4-byte) group of the
  view is reversed; otherwise nothing is written.
\<close>

fun swapEndian16 :: "byte list \<Rightarrow> byte list" where
  "swapEndian16 (b0 # b1 # bs) = b1 # b0 # swapEndian16 bs"
| "swapEndian16 bs = bs"

fun swapEndian32 :: "byte list \<Rightarrow> byte list" where
  "swapEndian32 (b0 # b1 # b2 # b3 # bs) = b3 # b2 # b1 # b0 # swapEndian32 bs"
| "swapEndian32 bs = bs"

definition convertEndian16 :: "Endianness \<Rightarrow> ArrayBuffer \<Rightarrow> view \<Rightarrow> Endianness \<Rightarrow> ArrayBuffer" where
  "convertEndian16 native buffer v source =
     (if source \<noteq> native then update_view buffer v swapEndian16 else buffer)"

definition convertEndian32 :: "Endianness \<Rightarrow> ArrayBuffer \<Rightarrow> view \<Rightarrow> Endianness \<Rightarrow> ArrayBuffer" where
  "convertEndian32 native buffer v source =
     (if source \<noteq> native then update_view buffer v swapEndian32 else buffer)"

section \<open>Geometry decoding (mesh/backend.ts)\<close>

text \<open>
  The result of \<open>decodeVertexPositionsAndIndices\<close>: the buffer after the in-place
  conversions and the two views stored into the chunk. Vertex positions are kept as the
  32-bit patterns of the floats.
\<close>

record decoded =
  buffer :: ArrayBuffer
  vertexPositions :: view
  indices :: view

definition indices_error :: "nat \<Rightarrow> nat \<Rightarrow> error" where
  "indices_error verticesPerPrimitive n =
     Error (''Number of indices is not a multiple of '' @ string_of_nat verticesPerPrimitive @
            '': '' @ string_of_nat n @ ''.'')"

text \<open>
  \<open>indices.length % verticesPerPrimitive !== 0\<close>: the remainder by 0 is \<open>NaN\<close>, which
  differs from 0, so a primitive size of 0 always throws.
\<close>

definition not_multiple :: "nat \<Rightarrow> nat \<Rightarrow> bool" where
  "not_multiple n verticesPerPrimitive \<longleftrightarrow>
     verticesPerPrimitive = 0 \<or> n mod verticesPerPrimitive \<noteq> 0"

definition decodeVertexPositionsAndIndices ::
  "Endianness \<Rightarrow> nat \<Rightarrow> ArrayBuffer \<Rightarrow> Endianness \<Rightarrow> nat \<Rightarrow> nat \<Rightarrow> nat option \<Rightarrow> nat option \<Rightarrow>
     error + decoded" where
  "decodeVertexPositionsAndIndices native verticesPerPrimitive data endianness
       vertexByteOffset numVertices indexByteOffset numPrimitives =
     (case view32 data vertexByteOffset (Some (numVertices * 3)) of
        Inl e \<Rightarrow> Inl e
      | Inr vertexPositions' \<Rightarrow>
          let data1 = convertEndian32 native data vertexPositions' endianness;
              indexByteOffset1 =
                (case indexByteOffset of
                   None \<Rightarrow> vertexByteOffset + 12 * numVertices
                 | Some off \<Rightarrow> off);
              numIndices = map_option (\<lambda>numPrimitives. numPrimitives * verticesPerPrimitive)
                             numPrimitives
          in case view32 data1 indexByteOffset1 numIndices of
               Inl e \<Rightarrow> Inl e
             | Inr indices' \<Rightarrow>
                 if not_multiple (byteLength indices' div 4) verticesPerPrimitive
                 then Inl (indices_error verticesPerPrimitive (byteLength indices' div 4))
                 else Inr \<lparr>buffer = convertEndian32 native data1 indices' endianness,
                          vertexPositions = vertexPositions', indices = indices'\<rparr>)"

text \<open>
  The index array that a call decodes: the view that the \<open>Uint32Array\<close> constructor
  yields for the call's arguments, when both constructors succeed.
\<close>

definition index_array ::
  "nat \<Rightarrow> ArrayBuffer \<Rightarrow> nat \<Rightarrow> nat \<Rightarrow> nat option \<Rightarrow> nat option \<Rightarrow> error + view" where
  "index_array verticesPerPrimitive data vertexByteOffset numVertices indexByteOffset numPrimitives =
     (case view32 data vertexByteOffset (Some (numVertices * 3)) of
        Inl e \<Rightarrow> Inl e
      | Inr _ \<Rightarrow>
          view32 data
            (case indexByteOffset of None \<Rightarrow> vertexByteOffset + 12 * numVertices | Some off \<Rightarrow> off)
            (map_option (\<lambda>numPrimitives. numPrimitives * verticesPerPrimitive) numPrimitives))"

section \<open>Skeleton decoding (datasource/precomputed/backend.ts)\<close>

text \<open>
  The scalar types of a vertex attribute and their byte sizes (\<open>DataType\<close> and the table
  \<open>DATA_TYPE_BYTES\<close>) are declared outside the source files; an attribute's schema gives
  its scalar type and its positive number of components.
\<close>

datatype DataType = UINT8 | UINT16 | UINT32 | UINT64 | FLOAT32

fun DATA_TYPE_BYTES :: "DataType \<Rightarrow> nat" where
  "DATA_TYPE_BYTES UINT8 = 1"
| "DATA_TYPE_BYTES UINT16 = 2"
| "DATA_TYPE_BYTES UINT32 = 4"
| "DATA_TYPE_BYTES UINT64 = 8"
| "DATA_TYPE_BYTES FLOAT32 = 4"

record VertexAttributeInfo =
  dataType :: DataType
  numComponents :: nat

definition bytesPerVertex :: "VertexAttributeInfo \<Rightarrow> nat" where
  "bytesPerVertex info = DATA_TYPE_BYTES (dataType info) * numComponents info"

text \<open>\<open>dv.getUint32(offset, true)\<close>: a little-endian read on every host.\<close>

definition getUint32_le :: "ArrayBuffer \<Rightarrow> nat \<Rightarrow> error + nat" where
  "getUint32_le response offset =
     (if length response < offset + 4 then Inl RangeError
      else Inr (unat (word32_of_bytes LITTLE (take 4 (drop offset response)))))"

text \<open>The \<open>switch (bytesPerVertex)\<close> of the loop body: the in-place conversion of one attribute.\<close>

definition convert_attribute :: "Endianness \<Rightarrow> nat \<Rightarrow> ArrayBuffer \<Rightarrow> view \<Rightarrow> ArrayBuffer" where
  "convert_attribute native width response attribute =
     (if width = 2 then convertEndian16 native response attribute LITTLE
      else if width = 4 \<or> width = 8 then convertEndian32 native response attribute LITTLE
      else response)"

text \<open>
  One iteration of the loop over the attribute schema. The loop state is the response buffer
  (converted in place), \<open>curOffset\<close> and the views pushed so far.
\<close>

definition attribute_step ::
  "Endianness \<Rightarrow> nat \<Rightarrow> VertexAttributeInfo \<Rightarrow> ArrayBuffer \<times> nat \<times> view list \<Rightarrow>
     error + ArrayBuffer \<times> nat \<times> view list" where
  "attribute_step native numVertices info st =
     (case st of (response, curOffset, attributes) \<Rightarrow>
        let totalBytes = bytesPerVertex info * numVertices
        in case view8 response curOffset totalBytes of
             Inl e \<Rightarrow> Inl e
           | Inr attribute \<Rightarrow>
               Inr (convert_attribute native (bytesPerVertex info) response attribute,
                    curOffset + totalBytes,
                    attributes @ [attribute]))"

fun decode_attributes ::
  "Endianness \<Rightarrow> nat \<Rightarrow> VertexAttributeInfo list \<Rightarrow> ArrayBuffer \<times> nat \<times> view list \<Rightarrow>
     error + ArrayBuffer \<times> nat \<times> view list" where
  "decode_attributes native numVertices [] st = Inr st"
| "decode_attributes native numVertices (info # infos) st =
     (case attribute_step native numVertices info st of
        Inl e \<Rightarrow> Inl e
      | Inr st' \<Rightarrow> decode_attributes native numVertices infos st')"

text \<open>
  Modelled from the spec: \<open>decodeSkeletonVertexPositionsAndIndices\<close> (skeleton backend) is not
  among the source files. Mesh and skeleton share the base routine, with 2 vertices per
  primitive for skeleton edges.
\<close>

definition decodeSkeletonVertexPositionsAndIndices ::
  "Endianness \<Rightarrow> ArrayBuffer \<Rightarrow> Endianness \<Rightarrow> nat \<Rightarrow> nat \<Rightarrow> nat option \<Rightarrow> nat option \<Rightarrow>
     error + decoded" where
  "decodeSkeletonVertexPositionsAndIndices native data endianness vertexByteOffset numVertices
       indexByteOffset numEdges =
     decodeVertexPositionsAndIndices native 2 data endianness vertexByteOffset numVertices
       indexByteOffset numEdges"

record SkeletonChunk = decoded +
  vertexAttributes :: "view list"

definition decodeSkeletonChunk ::
  "Endianness \<Rightarrow> ArrayBuffer \<Rightarrow> VertexAttributeInfo list \<Rightarrow> error + SkeletonChunk" where
  "decodeSkeletonChunk native response infos =
     (case getUint32_le response 0 of
        Inl e \<Rightarrow> Inl e
      | Inr numVertices \<Rightarrow>
     (case getUint32_le response 4 of
        Inl e \<Rightarrow> Inl e
      | Inr numEdges \<Rightarrow>
     (case decode_attributes native numVertices infos (response, 8 + numVertices * 4 * 3, []) of
        Inl e \<Rightarrow> Inl e
      | Inr (response1, curOffset, attributes) \<Rightarrow>
     (case decodeSkeletonVertexPositionsAndIndices native response1 LITTLE 8 numVertices
             (Some curOffset) (Some numEdges) of
        Inl e \<Rightarrow> Inl e
      | Inr d \<Rightarrow>
          Inr \<lparr>buffer = buffer d, vertexPositions = vertexPositions d, indices = indices d,
               vertexAttributes = attributes\<rparr>))))"

text \<open>
  The conversion that goes with a per-vertex byte width, as a function on the bytes of an
  attribute (wire data is little-endian): the 16-bit conversion for width 2, the 32-bit
  conversion for widths 4 and 8, none for any other width.
\<close>

definition conversion_for_width :: "Endianness \<Rightarrow> nat \<Rightarrow> byte list \<Rightarrow> byte list" where
  "conversion_for_width native width bs =
     (if width = 2 then (if native = LITTLE then bs else swapEndian16 bs)
      else if width = 4 \<or> width = 8 then (if native = LITTLE then bs else swapEndian32 bs)
      else bs)"

text \<open>
  The invariant of the attribute loop, against the response as received: the buffer keeps
  its length and is unchanged outside the bytes between \<open>start\<close> (the end of the vertex
  positions) and \<open>curOffset\<close>; every view pushed so far lies between the two and holds the
  conversion for its width of the bytes received.
\<close>

definition attrs_inv ::
  "Endianness \<Rightarrow> ArrayBuffer \<Rightarrow> nat \<Rightarrow> VertexAttributeInfo list \<Rightarrow> ArrayBuffer \<times> nat \<times> view list \<Rightarrow>
     bool" where
  "attrs_inv native response start seen st \<longleftrightarrow>
     (case st of (buf, cur, attrs) \<Rightarrow>
        length buf = length response \<and> start \<le> cur \<and>
        (\<forall>p. p < start \<or> cur \<le> p \<longrightarrow> buf ! p = response ! p) \<and>
        length attrs = length seen \<and>
        (\<forall>i < length attrs.
           start \<le> byteOffset (attrs ! i) \<and>
           byteOffset (attrs ! i) + byteLength (attrs ! i) \<le> cur \<and>
           byteOffset (attrs ! i) + byteLength (attrs ! i) \<le> length response \<and>
           view_bytes buf (attrs ! i) =
             conversion_for_width native (bytesPerVertex (seen ! i))
               (view_bytes response (attrs ! i))))"

text \<open>
  The layout of the attributes in a skeleton response: the views that the attribute loop
  pushes when it starts at \<open>curOffset\<close>, one per attribute of the schema and each as long as
  the attribute's per-vertex width times the number of vertices, and the offset at which the
  edge indices begin.
\<close>

fun attribute_views :: "nat \<Rightarrow> nat \<Rightarrow> VertexAttributeInfo list \<Rightarrow> view list" where
  "attribute_views numVertices curOffset [] = []"
| "attribute_views numVertices curOffset (info # infos) =
     \<lparr>byteOffset = curOffset, byteLength = bytesPerVertex info * numVertices\<rparr> #
     attribute_views numVertices (curOffset + bytesPerVertex info * numVertices) infos"

definition attributes_end :: "nat \<Rightarrow> VertexAttributeInfo list \<Rightarrow> nat" where
  "attributes_end numVertices infos =
     8 + numVertices * 4 * 3 + sum_list (map (\<lambda>info. bytesPerVertex info * numVertices) infos)"

text \<open>
  A skeleton of one vertex and no edge as a big-endian host receives it, with attributes of
  per-vertex widths 12, 2, 2, 4, 8, 1, 1 and 2.
\<close>

definition example_skeleton :: ArrayBuffer where
  "example_skeleton =
     [1, 0, 0, 0,  0, 0, 0, 0,
      0, 0, 128, 63,  0, 0, 0, 64,  0, 0, 64, 64,
      1, 2, 3, 4,  5, 6, 7, 8,  9, 10, 11, 12,
      13, 14,
      15, 16,
      17, 18, 19, 20,
      21, 22, 23, 24,  25, 26, 27, 28,
      29,
      30,
      31, 32]"

definition example_attributes :: "VertexAttributeInfo list" where
  "example_attributes =
     [\<lparr>dataType = FLOAT32, numComponents = 3\<rparr>,
      \<lparr>dataType = UINT16, numComponents = 1\<rparr>,
      \<lparr>dataType = UINT16, numComponents = 1\<rparr>,
      \<lparr>dataType = UINT32, numComponents = 1\<rparr>,
      \<lparr>dataType = UINT64, numComponents = 1\<rparr>,
      \<lparr>dataType = UINT8, numComponents = 1\<rparr>,
      \<lparr>dataType = UINT8, numComponents = 1\<rparr>,
      \<lparr>dataType = UINT8, numComponents = 2\<rparr>]"

section \<open>Graph client protocol (chunked\_graph/frontend.ts)\<close>

text \<open>
  A \<open>SegmentSelection\<close> as the graph client reads it: the selected segment, its root and
  the position of the selection.
\<close>

record SegmentSelection =
  segmentId :: Uint64
  rootId :: Uint64
  position :: "int list"

datatype json =
    JString string
  | JNumber int
  | JArray "json list"
  | JObject "(string \<times> json) list"

record HttpRequest =
  url :: string
  httpMethod :: string
  body :: json

text \<open>
  The transport (\<open>sendHttpJsonPostRequest (openHttpRequest ...)\<close>) is outside the source
  files: the server's answer to a request is the parameter \<open>net\<close>. Every operation returns
  the list of requests it has sent together with how its promise settles: \<open>Inr v\<close> when it
  resolves to \<open>v\<close>, \<open>Inl e\<close> when it rejects with \<open>e\<close>.
\<close>

type_synonym network = "HttpRequest \<Rightarrow> error + ArrayBuffer"

definition selection_json :: "SegmentSelection \<Rightarrow> json" where
  "selection_json x = JArray (JString (Uint64_toString (segmentId x)) # map JNumber (position x))"

definition decode_root :: "Endianness \<Rightarrow> ArrayBuffer \<Rightarrow> error + Uint64" where
  "decode_root native response =
     (case Uint32Array_whole native response of
        Inl e \<Rightarrow> Inl e
      | Inr uint32 \<Rightarrow> Inr (Uint64_of (at_or_0 uint32 0) (at_or_0 uint32 1)))"

definition getRoot ::
  "Endianness \<Rightarrow> network \<Rightarrow> string \<Rightarrow> SegmentSelection \<Rightarrow> HttpRequest list \<times> (error + Uint64)" where
  "getRoot native net graphurl selection =
     (if graphurl = [] then ([], Inr (segmentId selection))
      else
        let req = \<lparr>url = graphurl @ ''/1.0/graph/root'', httpMethod = ''POST'',
                   body = selection_json selection\<rparr>
        in ([req],
            case net req of
              Inl e \<Rightarrow> Inl e
            | Inr response \<Rightarrow> decode_root native response))"

definition mergeSegments ::
  "Endianness \<Rightarrow> network \<Rightarrow> string \<Rightarrow> SegmentSelection \<Rightarrow> SegmentSelection \<Rightarrow>
     HttpRequest list \<times> (error + Uint64)" where
  "mergeSegments native net graphurl first second =
     (if graphurl = [] then ([], Inl GRAPH_SERVER_NOT_SPECIFIED)
      else
        let req = \<lparr>url = graphurl @ ''/1.0/graph/merge'', httpMethod = ''POST'',
                   body = JArray [selection_json first, selection_json second]\<rparr>
        in ([req],
            case net req of
              Inl e \<Rightarrow> Inl e
            | Inr response \<Rightarrow> decode_root native response))"

text \<open>
  The split response is read as \<open>uint32.length / 2\<close> ids into \<open>new Array(uint32.length / 2)\<close>,
  which throws a \<open>RangeError\<close> (invalid array length) for an odd number of words; the
  \<open>catch\<close> handler re-rejects with it.
\<close>

definition decode_roots :: "Endianness \<Rightarrow> ArrayBuffer \<Rightarrow> error + Uint64 list" where
  "decode_roots native response =
     (case Uint32Array_whole native response of
        Inl e \<Rightarrow> Inl e
      | Inr uint32 \<Rightarrow>
          if length uint32 mod 2 \<noteq> 0 then Inl RangeError
          else Inr (map (\<lambda>i. Uint64_of (at_or_0 uint32 (2 * i)) (at_or_0 uint32 (2 * i + 1)))
                      [0 ..< length uint32 div 2]))"

definition splitSegments ::
  "Endianness \<Rightarrow> network \<Rightarrow> string \<Rightarrow> SegmentSelection list \<Rightarrow> SegmentSelection list \<Rightarrow>
     HttpRequest list \<times> (error + Uint64 list)" where
  "splitSegments native net graphurl first second =
     (if graphurl = [] then ([], Inl GRAPH_SERVER_NOT_SPECIFIED)
      else
        let req = \<lparr>url = graphurl @ ''/1.0/graph/split'', httpMethod = ''POST'',
                   body = JObject [(''sources'', JArray (map selection_json first)),
                                   (''sinks'', JArray (map selection_json second))]\<rparr>
        in ([req],
            case net req of
              Inl e \<Rightarrow> Inl e
            | Inr response \<Rightarrow> decode_roots native response))"

section \<open>Numbers\<close>

text \<open>
  A number of the source is an IEEE 754 binary64 value: \<open>NaN\<close>, one of the two infinities,
  or a finite value, which is kept as the real that it denotes (the sign of a zero is not
  kept: the code modelled here never divides by a zero and never inspects the sign of one).
  The result of an arithmetic operation on finite values is the exact result rounded to the
  nearest value of the format, ties to the even significand, and an infinity when the
  rounded magnitude exceeds the largest finite value. An element of a \<open>Float32Array\<close> is a
  binary32 value, to which a write rounds in the same way.

  \<open>round_to_format p emin emax\<close> rounds to the format with \<open>p\<close> significand bits and
  exponents from \<open>emin\<close> to \<open>emax\<close>: the values representable near \<open>x\<close> are the integer
  multiples of \<open>2\<close> to the power \<open>exponent - (p - 1)\<close>, the exponent of \<open>x\<close> being that of the
  greatest power of 2 not above \<open>\<bar>x\<bar>\<close>, and \<open>emin\<close> for the subnormal values below it.
\<close>

datatype number = NaN | PosInfinity | NegInfinity | Num real

definition round_half_even :: "real \<Rightarrow> int" where
  "round_half_even x =
     (let f = \<lfloor>x\<rfloor>
      in if x - of_int f < 1 / 2 then f
         else if 1 / 2 < x - of_int f then f + 1
         else if even f then f else f + 1)"

definition exponent :: "int \<Rightarrow> real \<Rightarrow> int" where
  "exponent emin x = max emin \<lfloor>log 2 \<bar>x\<bar>\<rfloor>"

definition round_to_format :: "nat \<Rightarrow> int \<Rightarrow> int \<Rightarrow> real \<Rightarrow> number" where
  "round_to_format p emin emax x =
     (if x = 0 then Num 0
      else
        let ulp = 2 powr (of_int (exponent emin x) - (of_nat p - 1));
            y = of_int (round_half_even (x / ulp)) * ulp
        in if 2 powr (of_int emax + 1) \<le> \<bar>y\<bar>
           then (if 0 < x then PosInfinity else NegInfinity)
           else Num y)"

definition float64 :: "real \<Rightarrow> number" where
  "float64 = round_to_format 53 (- 1022) 1023"

definition float32 :: "real \<Rightarrow> number" where
  "float32 = round_to_format 24 (- 126) 127"

text \<open>The operators \<open>+\<close>, unary \<open>-\<close>, binary \<open>-\<close> and \<open>*\<close> on numbers, and the test \<open>a > 0\<close>.\<close>

fun num_add :: "number \<Rightarrow> number \<Rightarrow> number" where
  "num_add (Num x) (Num y) = float64 (x + y)"
| "num_add NaN b = NaN"
| "num_add a NaN = NaN"
| "num_add PosInfinity NegInfinity = NaN"
| "num_add NegInfinity PosInfinity = NaN"
| "num_add PosInfinity b = PosInfinity"
| "num_add a PosInfinity = PosInfinity"
| "num_add NegInfinity b = NegInfinity"
| "num_add a NegInfinity = NegInfinity"



fun num_negative :: "number \<Rightarrow> bool" where
  "num_negative NegInfinity = True"
| "num_negative (Num x) = (x < 0)"
| "num_negative a = False"

fun num_mul :: "number \<Rightarrow> number \<Rightarrow> number" where
  "num_mul (Num x) (Num y) = float64 (x * y)"
| "num_mul NaN b = NaN"
| "num_mul a NaN = NaN"
| "num_mul a b =
     (if a = Num 0 \<or> b = Num 0 then NaN
      else if num_negative a = num_negative b then PosInfinity else NegInfinity)"

fun num_positive :: "number \<Rightarrow> bool" where
  "num_positive PosInfinity = True"
| "num_positive (Num x) = (0 < x)"
| "num_positive a = False"

text \<open>
  \<open>1 / Math.sqrt (a)\<close>, which the code takes of a number that it has found greater than 0
  only: the square root is rounded, and so is the quotient; the root of infinity is
  infinity and its inverse 0.
\<close>

fun num_inv_sqrt :: "number \<Rightarrow> number" where
  "num_inv_sqrt PosInfinity = Num 0"
| "num_inv_sqrt (Num x) =
     (if x < 0 then NaN
      else case float64 (sqrt x) of
             Num r \<Rightarrow> if r = 0 then PosInfinity else float64 (1 / r)
           | other \<Rightarrow> Num 0)"
| "num_inv_sqrt a = NaN"

text \<open>A write to an element of a \<open>Float32Array\<close> stores the number rounded to binary32.\<close>

fun fround :: "number \<Rightarrow> number" where
  "fround (Num x) = float32 x"
| "fround a = a"

section \<open>Mesh layer: chunks and shared state (mesh/backend.ts)\<close>

text \<open>
  Modelled from the spec: the chunk manager (\<open>Chunk\<close>, \<open>ChunkState\<close>, \<open>ChunkPriorityTier\<close>,
  \<open>requestChunk\<close>) and \<open>getObjectKey\<close> are not among the source files. The lifecycle states
  are those the specification lists; a chunk key identifies a chunk uniquely within its
  source, so the key of a manifest is the pair of its object id and optional clip bounds and
  the key of a fragment is the manifest key with the fragment id.
\<close>

datatype ChunkState =
    QUEUED
  | DOWNLOADING
  | SYSTEM_MEMORY
  | SYSTEM_MEMORY_WORKER
  | GPU_MEMORY
  | FAILED
  | REQUESTING_CHILDREN

datatype ChunkPriorityTier = VISIBLE | PREFETCH | RECENT

type_synonym FragmentId = string
type_synonym Bounds = "int list"
type_synonym ObjectKey = "Uint64 \<times> Bounds option"
type_synonym FragmentKey = "ObjectKey \<times> FragmentId"

definition getObjectKey :: "Uint64 \<Rightarrow> Bounds option \<Rightarrow> ObjectKey" where
  "getObjectKey objectId bounds = (objectId, bounds)"

text \<open>
  A manifest chunk is an object, which a continuation may still hold when the source no
  longer does. \<open>identity\<close> is not a field of the source: it tells the chunk objects apart,
  the \<open>n\<close>-th object that \<open>getNewChunk_\<close> returns having the identity \<open>n\<close> (modelled from
  the spec, by which an evicted chunk is destroyed: \<open>getNewChunk_\<close>, which is not among the
  source files, returns a new object every time).
\<close>

record ManifestChunk =
  identity :: nat
  key :: ObjectKey
  objectId :: Uint64
  fragmentIds :: "FragmentId list option"
  clipBounds :: "Bounds option"
  state :: ChunkState

text \<open>\<open>initializeManifestChunk\<close> on a chunk fresh from the source: queued, no fragment list.\<close>

definition initializeManifestChunk :: "nat \<Rightarrow> ObjectKey \<Rightarrow> Uint64 \<Rightarrow> Bounds option \<Rightarrow> ManifestChunk" where
  "initializeManifestChunk new k oid bounds =
     \<lparr>identity = new, key = k, objectId = oid, fragmentIds = None, clipBounds = bounds,
      state = QUEUED\<rparr>"

definition MESH_OBJECT_MANIFEST_CHUNK_PRIORITY :: number where
  "MESH_OBJECT_MANIFEST_CHUNK_PRIORITY = Num 100"

definition MESH_OBJECT_FRAGMENT_CHUNK_PRIORITY :: number where
  "MESH_OBJECT_FRAGMENT_CHUNK_PRIORITY = Num 50"

text \<open>The layer's visibility is a number that may be infinite; priorities are numbers.\<close>

datatype visibility = NEGATIVE_INFINITY | Visibility real | POSITIVE_INFINITY

datatype ChunkRef = Manifest ObjectKey | Fragment FragmentKey

record request =
  requestedChunk :: ChunkRef
  priorityTier :: ChunkPriorityTier
  priority :: number

text \<open>
  A \<open>getChildren\<close> promise that has not settled, with what its continuation has captured:
  the manifest chunk object (its identity, and the key under which the source held it when
  the query was issued) and the two cloned ids. \<open>queried\<close> is the argument of the call.
\<close>

record query =
  manifest :: nat
  manifestKey :: ObjectKey
  queried :: Uint64
  segmentID :: Uint64
  rootID :: Uint64

text \<open>One entry of \<open>requestedChildChunks\<close>; the field names of the source are \<open>add\<close> and \<open>delete\<close>.\<close>

record batch =
  add :: "Uint64 list"
  delete :: "Uint64 list"

text \<open>
  The mesh layer with the objects it shares. \<open>chunks\<close> is the map of the source from keys to
  the chunk objects it holds, \<open>allocated\<close> the number of chunk objects created so far.
  \<open>requestedChildChunks\<close> is a \<open>Map\<close> keyed by
  the decimal string of the root id; the string is parsed back to the id at the flush, so the
  entries are kept under the id itself, in insertion order. \<open>segmentEquivalences\<close> is the
  sequence of \<open>link\<close> calls made on the union-find. \<open>requested\<close> records the calls of
  \<open>chunkManager.requestChunk\<close> in order (a manifest chunk object is named by the key under
  which the source holds it), \<open>outstanding\<close> the unsettled \<open>getChildren\<close>
  promises, \<open>getChildrenCalls\<close> the arguments of the calls of \<open>chunkedGraph.getChildren\<close>
  in order, \<open>console\<close> the logged lines. \<open>now\<close> is the clock in milliseconds,
  \<open>flushAt\<close> the time at which the pending debounced call fires, and \<open>flushes\<close> counts
  the calls of \<open>handleChildChunks\<close> made by the debounced function.
\<close>

record MeshLayer =
  chunks :: "ObjectKey \<rightharpoonup> ManifestChunk"
  allocated :: nat
  fragmentChunks :: "FragmentKey set"
  chunkedGraph :: bool
  rootSegments :: "Uint64 set"
  visibleSegments3D :: "Uint64 set"
  segmentEquivalences :: "(Uint64 \<times> Uint64) list"
  requestedChildChunks :: "(Uint64 \<times> batch) list"
  layerVisibility :: visibility
  layerClipBounds :: "Bounds option"
  requested :: "request list"
  outstanding :: "query list"
  getChildrenCalls :: "Uint64 list"
  console :: "string list"
  now :: nat
  flushAt :: "nat option"
  flushes :: nat

section \<open>Mesh layer: operations\<close>

text \<open>\<open>MeshSource.getChunk\<close>: the chunk under the key, created and added when missing.\<close>

definition getChunk :: "Uint64 \<Rightarrow> Bounds option \<Rightarrow> MeshLayer \<Rightarrow> ManifestChunk \<times> MeshLayer" where
  "getChunk oid bounds s =
     (let k = getObjectKey oid bounds
      in case chunks s k of
           Some c \<Rightarrow> (c, s)
         | None \<Rightarrow>
             let c = initializeManifestChunk (allocated s) k oid bounds
             in (c, s\<lparr>chunks := (chunks s)(k \<mapsto> c), allocated := allocated s + 1\<rparr>))"

text \<open>\<open>MeshSource.getFragmentChunk\<close>: the fragment chunk under the composite key.\<close>

definition getFragmentChunk :: "ManifestChunk \<Rightarrow> FragmentId \<Rightarrow> MeshLayer \<Rightarrow> FragmentKey \<times> MeshLayer" where
  "getFragmentChunk manifestChunk fragmentId s =
     (let k = (key manifestChunk, fragmentId)
      in (k, s\<lparr>fragmentChunks := insert k (fragmentChunks s)\<rparr>))"

definition requestChunk :: "ChunkRef \<Rightarrow> ChunkPriorityTier \<Rightarrow> number \<Rightarrow> MeshLayer \<Rightarrow> MeshLayer" where
  "requestChunk c t p s = s\<lparr>requested := requested s @ [\<lparr>requestedChunk = c, priorityTier = t, priority = p\<rparr>]\<rparr>"

text \<open>
  \<open>manifestChunk.state = st\<close> on the chunk object \<open>obj\<close>, which the source held under the
  key \<open>k\<close>: the source still holds it there unless it has been evicted since, and the state
  of an evicted object is of no effect on the layer.
\<close>

definition set_state :: "nat \<Rightarrow> ObjectKey \<Rightarrow> ChunkState \<Rightarrow> MeshLayer \<Rightarrow> MeshLayer" where
  "set_state obj k st s =
     (case chunks s k of
        None \<Rightarrow> s
      | Some c \<Rightarrow>
          if identity c = obj then s\<lparr>chunks := (chunks s)(k \<mapsto> c\<lparr>state := st\<rparr>)\<rparr> else s)"

text \<open>
  The debounced function (\<open>debounce (..., 100)\<close>): a call (re)starts the single timer, which
  fires 100 ms after the latest call.
\<close>

definition debouncedHandleChildChunks :: "MeshLayer \<Rightarrow> MeshLayer" where
  "debouncedHandleChildChunks s = s\<lparr>flushAt := Some (now s + 100)\<rparr>"

text \<open>The body of the loop of \<open>handleChildChunks\<close> for one entry of the map.\<close>

definition add_child :: "Uint64 \<Rightarrow> Uint64 \<Rightarrow> MeshLayer \<Rightarrow> MeshLayer" where
  "add_child rootTmp e s =
     s\<lparr>visibleSegments3D := insert e (visibleSegments3D s),
       segmentEquivalences := segmentEquivalences s @ [(rootTmp, e)]\<rparr>"

definition delete_segment :: "Uint64 \<Rightarrow> MeshLayer \<Rightarrow> MeshLayer" where
  "delete_segment e s = s\<lparr>visibleSegments3D := visibleSegments3D s - {e}\<rparr>"

definition handle_entry :: "Uint64 \<times> batch \<Rightarrow> MeshLayer \<Rightarrow> MeshLayer" where
  "handle_entry entry s =
     (case entry of (rootTmp, elements) \<Rightarrow>
        if rootTmp \<notin> rootSegments s
        then s\<lparr>console := console s @ [''Adding 3D children aborted due to missing root.'']\<rparr>
        else fold delete_segment (delete elements) (fold (add_child rootTmp) (add elements) s))"

definition handleChildChunks :: "MeshLayer \<Rightarrow> MeshLayer" where
  "handleChildChunks s = (fold handle_entry (requestedChildChunks s) s)\<lparr>requestedChildChunks := []\<rparr>"

text \<open>
  The continuation of \<open>getChildren (objectId).then (...)\<close> for the promise \<open>q\<close> resolving to
  \<open>children\<close>.
\<close>

definition push_children :: "Uint64 \<Rightarrow> Uint64 list \<Rightarrow> Uint64 \<Rightarrow> (Uint64 \<times> batch) list \<Rightarrow> (Uint64 \<times> batch) list" where
  "push_children r children seg m =
     (let m1 = (if r \<in> fst ` set m then m else m @ [(r, \<lparr>add = [], delete = []\<rparr>)])
      in map (\<lambda>(r', b). if r' = r then (r', \<lparr>add = add b @ children, delete = delete b @ [seg]\<rparr>)
                         else (r', b)) m1)"

definition children_received :: "query \<Rightarrow> Uint64 list \<Rightarrow> MeshLayer \<Rightarrow> MeshLayer" where
  "children_received q children s =
     (let s1 = set_state (manifest q) (manifestKey q) FAILED s
      in if rootID q \<notin> rootSegments s1
         then s1\<lparr>console := console s1 @ [''Adding 3D chunks aborted due to missing root object.'']\<rparr>
         else debouncedHandleChildChunks
                (s1\<lparr>requestedChildChunks :=
                      push_children (rootID q) children (segmentID q) (requestedChildChunks s1)\<rparr>))"

text \<open>
  The callback of \<open>forEachVisibleSegment3D\<close> in \<open>updateChunkPriorities\<close>. It returns the error
  it throws, if any, with the layer as it then is: \<open>manifestChunk.fragmentIds!\<close> on a loaded
  chunk without a fragment list is a \<open>TypeError\<close> (iterating \<open>null\<close>). The priorities are
  the sums that \<open>+\<close> computes on numbers.
\<close>

definition request_fragments ::
  "ManifestChunk \<Rightarrow> ChunkPriorityTier \<Rightarrow> number \<Rightarrow> FragmentId list \<Rightarrow> MeshLayer \<Rightarrow> MeshLayer" where
  "request_fragments manifestChunk tier basePriority ids s =
     fold (\<lambda>fragmentId s.
             case getFragmentChunk manifestChunk fragmentId s of
               (fragmentChunk, s1) \<Rightarrow>
                 requestChunk (Fragment fragmentChunk) tier
                   (num_add basePriority MESH_OBJECT_FRAGMENT_CHUNK_PRIORITY) s1)
          ids s"

definition visit ::
  "ChunkPriorityTier \<Rightarrow> number \<Rightarrow> Uint64 \<times> Uint64 \<Rightarrow> MeshLayer \<Rightarrow> error option \<times> MeshLayer" where
  "visit tier basePriority seg s =
     (case seg of (oid, rootObjectId) \<Rightarrow>
      case getChunk oid (layerClipBounds s) s of (manifestChunk, s1) \<Rightarrow>
        let k = getObjectKey oid (layerClipBounds s);
            s2 = requestChunk (Manifest k) tier
                   (num_add basePriority MESH_OBJECT_MANIFEST_CHUNK_PRIORITY) s1
        in if state manifestChunk \<in> {SYSTEM_MEMORY_WORKER, SYSTEM_MEMORY, GPU_MEMORY} then
             (case fragmentIds manifestChunk of
                None \<Rightarrow> (Some TypeError, s2)
              | Some ids \<Rightarrow> (None, request_fragments manifestChunk tier basePriority ids s2))
           else if state manifestChunk = FAILED then
             (if \<not> chunkedGraph s2 then (None, s2)
              else
                let s3 = set_state (identity manifestChunk) k REQUESTING_CHILDREN s2
                in (None, s3\<lparr>outstanding := outstanding s3 @
                               [\<lparr>manifest = identity manifestChunk, manifestKey = k,
                                 queried = oid, segmentID = oid, rootID = rootObjectId\<rparr>],
                             getChildrenCalls := getChildrenCalls s3 @ [oid]\<rparr>))
           else (None, s2))"

text \<open>
  \<open>forEachVisibleSegment3D\<close> is not among the source files: the pairs of an object id and
  its root id that it passes to the callback, in order, are the parameter \<open>segs\<close>. An
  exception of the callback ends the enumeration.
\<close>

fun forEachVisibleSegment3D ::
  "(Uint64 \<times> Uint64 \<Rightarrow> MeshLayer \<Rightarrow> error option \<times> MeshLayer) \<Rightarrow> (Uint64 \<times> Uint64) list \<Rightarrow>
     MeshLayer \<Rightarrow> error option \<times> MeshLayer" where
  "forEachVisibleSegment3D callback [] s = (None, s)"
| "forEachVisibleSegment3D callback (seg # segs) s =
     (case callback seg s of
        (None, s1) \<Rightarrow> forEachVisibleSegment3D callback segs s1
      | (Some e, s1) \<Rightarrow> (Some e, s1))"

text \<open>
  \<open>getPriorityTier\<close> and \<open>getBasePriority\<close> (visibility\_priority/backend) are not among the
  source files and are parameters.
\<close>

definition updateChunkPriorities ::
  "(visibility \<Rightarrow> ChunkPriorityTier) \<Rightarrow> (visibility \<Rightarrow> number) \<Rightarrow> (Uint64 \<times> Uint64) list \<Rightarrow>
     MeshLayer \<Rightarrow> error option \<times> MeshLayer" where
  "updateChunkPriorities getPriorityTier getBasePriority segs s =
     (if layerVisibility s = NEGATIVE_INFINITY then (None, s)
      else
        let tier = getPriorityTier (layerVisibility s);
            basePriority = getBasePriority (layerVisibility s)
        in forEachVisibleSegment3D (visit tier basePriority) segs s)"

section \<open>Mesh layer: events\<close>

text \<open>
  The layer runs in one thread: between two of its own callbacks anything else may happen.
  An event is one such callback, or a change made by a collaborator:
  \<^item> a priority recomputation pass, with what \<open>forEachVisibleSegment3D\<close> enumerates;
  \<^item> an outstanding \<open>getChildren\<close> promise resolving to a list of children, or rejecting
    (the source attaches no rejection handler, so nothing runs);
  \<^item> the clock advancing, which fires the debounce timer when it is due;
  \<^item> the chunk manager moving a manifest chunk along its lifecycle, with the fragment list a
    download has decoded, or that \<open>freeSystemMemory\<close> has reset to \<open>null\<close>. Modelled from
    the spec: of the chunk manager, which is not among the source files, the model uses only
    that it never moves a chunk into or out of \<open>REQUESTING_CHILDREN\<close>, the state that the
    fallback alone assigns;
  \<^item> the chunk manager evicting a manifest chunk, in whatever state it is: the source then
    holds no chunk under the key (and, by the spec, none of its fragments), and the next
    \<open>getChunk\<close> for the key creates a new chunk object;
  \<^item> the display layer replacing the shared root and visible sets, the visibility and the
    clip bounds.
\<close>

datatype event =
    RecomputeChunkPriorities "(Uint64 \<times> Uint64) list"
  | ChildrenResolved query "Uint64 list"
  | ChildrenRejected query
  | Clock nat
  | ChunkManagerUpdate ObjectKey ChunkState "FragmentId list option"
  | ChunkEvicted ObjectKey
  | DisplayUpdate "Uint64 set" "Uint64 set" visibility "Bounds option"

definition advance :: "nat \<Rightarrow> MeshLayer \<Rightarrow> MeshLayer" where
  "advance t s =
     (if t < now s then s
      else case flushAt s of
             None \<Rightarrow> s\<lparr>now := t\<rparr>
           | Some due \<Rightarrow>
               if due \<le> t
               then (handleChildChunks s)\<lparr>now := t, flushAt := None, flushes := flushes s + 1\<rparr>
               else s\<lparr>now := t\<rparr>)"

definition chunk_manager_update ::
  "ObjectKey \<Rightarrow> ChunkState \<Rightarrow> FragmentId list option \<Rightarrow> MeshLayer \<Rightarrow> MeshLayer" where
  "chunk_manager_update k st ids s =
     (case chunks s k of
        None \<Rightarrow> s
      | Some c \<Rightarrow>
          if state c = REQUESTING_CHILDREN \<or> st = REQUESTING_CHILDREN then s
          else s\<lparr>chunks := (chunks s)(k \<mapsto> c\<lparr>state := st, fragmentIds := ids\<rparr>)\<rparr>)"

definition evict :: "ObjectKey \<Rightarrow> MeshLayer \<Rightarrow> MeshLayer" where
  "evict k s =
     s\<lparr>chunks := (chunks s)(k := None),
       fragmentChunks := {fragment \<in> fragmentChunks s. fst fragment \<noteq> k}\<rparr>"

definition step ::
  "(visibility \<Rightarrow> ChunkPriorityTier) \<Rightarrow> (visibility \<Rightarrow> number) \<Rightarrow> event \<Rightarrow> MeshLayer \<Rightarrow> MeshLayer" where
  "step getPriorityTier getBasePriority ev s =
     (case ev of
        RecomputeChunkPriorities segs \<Rightarrow>
          snd (updateChunkPriorities getPriorityTier getBasePriority segs s)
      | ChildrenResolved q children \<Rightarrow>
          if q \<in> set (outstanding s)
          then children_received q children (s\<lparr>outstanding := remove1 q (outstanding s)\<rparr>)
          else s
      | ChildrenRejected q \<Rightarrow> s\<lparr>outstanding := remove1 q (outstanding s)\<rparr>
      | Clock t \<Rightarrow> advance t s
      | ChunkManagerUpdate k st ids \<Rightarrow> chunk_manager_update k st ids s
      | ChunkEvicted k \<Rightarrow> evict k s
      | DisplayUpdate roots visible v bounds \<Rightarrow>
          s\<lparr>rootSegments := roots, visibleSegments3D := visible, layerVisibility := v,
            layerClipBounds := bounds\<rparr>)"

definition run ::
  "(visibility \<Rightarrow> ChunkPriorityTier) \<Rightarrow> (visibility \<Rightarrow> number) \<Rightarrow> event list \<Rightarrow> MeshLayer \<Rightarrow> MeshLayer" where
  "run getPriorityTier getBasePriority evs s = fold (step getPriorityTier getBasePriority) evs s"

text \<open>
  The number of fallback queries outstanding for a manifest chunk object, and for a
  manifest key.
\<close>

definition queries_for :: "nat \<Rightarrow> MeshLayer \<Rightarrow> nat" where
  "queries_for obj s = length (filter (\<lambda>q. manifest q = obj) (outstanding s))"

definition queries_for_key :: "ObjectKey \<Rightarrow> MeshLayer \<Rightarrow> nat" where
  "queries_for_key k s = length (filter (\<lambda>q. manifestKey q = k) (outstanding s))"

definition state_of :: "MeshLayer \<Rightarrow> ObjectKey \<Rightarrow> ChunkState option" where
  "state_of s k = map_option state (chunks s k)"

definition eviction :: "event \<Rightarrow> bool" where
  "eviction ev = (case ev of ChunkEvicted _ \<Rightarrow> True | _ \<Rightarrow> False)"

text \<open>The number of failed manifest downloads among the events.\<close>

definition download_failures :: "event list \<Rightarrow> nat" where
  "download_failures evs =
     length (filter (\<lambda>ev. case ev of ChunkManagerUpdate _ st _ \<Rightarrow> st = FAILED | _ \<Rightarrow> False) evs)"

text \<open>
  A layer as constructed, before any pass: no fallback query outstanding, no chunk in
  \<open>REQUESTING_CHILDREN\<close>; the chunks that the source already holds are distinct objects,
  created earlier.
\<close>

definition distinct_objects :: "MeshLayer \<Rightarrow> bool" where
  "distinct_objects s \<longleftrightarrow>
     (\<forall>k c. chunks s k = Some c \<longrightarrow> identity c < allocated s) \<and>
     (\<forall>k k' c c'. chunks s k = Some c \<and> chunks s k' = Some c' \<and> identity c = identity c' \<longrightarrow> k = k')"

definition fresh :: "MeshLayer \<Rightarrow> bool" where
  "fresh s \<longleftrightarrow>
     outstanding s = [] \<and> (\<forall>k. state_of s k \<noteq> Some REQUESTING_CHILDREN) \<and> distinct_objects s"

text \<open>
  The invariant of the fallback: the outstanding queries belong to distinct chunk objects,
  all created earlier; a chunk object that has one and that the source still holds is held
  under the key of the query and is in \<open>REQUESTING_CHILDREN\<close>.
\<close>

definition fallback_inv :: "MeshLayer \<Rightarrow> bool" where
  "fallback_inv s \<longleftrightarrow>
     distinct_objects s \<and>
     distinct (map manifest (outstanding s)) \<and>
     (\<forall>q \<in> set (outstanding s). manifest q < allocated s) \<and>
     (\<forall>q \<in> set (outstanding s). \<forall>k c. chunks s k = Some c \<and> identity c = manifest q \<longrightarrow>
        k = manifestKey q \<and> state c = REQUESTING_CHILDREN)"

text \<open>
  While no chunk is evicted, the chunk object of every outstanding query is still held by
  the source.
\<close>

definition held_inv :: "MeshLayer \<Rightarrow> bool" where
  "held_inv s \<longleftrightarrow>
     (\<forall>q \<in> set (outstanding s). \<exists>c. chunks s (manifestKey q) = Some c \<and> identity c = manifest q)"

text \<open>What a visit of the callback does to the state of the manifest it names.\<close>

definition visit_state :: "bool \<Rightarrow> ChunkState option \<Rightarrow> ChunkState" where
  "visit_state graph st =
     (case st of None \<Rightarrow> QUEUED
      | Some st \<Rightarrow> if st = FAILED \<and> graph then REQUESTING_CHILDREN else st)"

section \<open>Mesh layer: an example run\<close>

text \<open>
  Examples of the two priority functions, and a layer with a graph client showing segments
  5 and 6 (each its own root), whose manifests both fail to download; a second pass then
  visits segment 6 only.
\<close>

definition example_getPriorityTier :: "visibility \<Rightarrow> ChunkPriorityTier" where
  "example_getPriorityTier v = (if v = POSITIVE_INFINITY then VISIBLE else PREFETCH)"

definition example_getBasePriority :: "visibility \<Rightarrow> number" where
  "example_getBasePriority v = (case v of Visibility x \<Rightarrow> float64 (x * 1000) | _ \<Rightarrow> Num 0)"

definition example_layer :: MeshLayer where
  "example_layer =
     \<lparr>chunks = Map.empty, allocated = 0, fragmentChunks = {}, chunkedGraph = True,
      rootSegments = {5, 6}, visibleSegments3D = {5, 6}, segmentEquivalences = [],
      requestedChildChunks = [], layerVisibility = POSITIVE_INFINITY, layerClipBounds = None,
      requested = [], outstanding = [], getChildrenCalls = [], console = [], now = 0,
      flushAt = None, flushes = 0\<rparr>"

definition example_events :: "event list" where
  "example_events =
     [RecomputeChunkPriorities [(5, 5), (6, 6)],
      ChunkManagerUpdate (5, None) DOWNLOADING None,
      ChunkManagerUpdate (6, None) DOWNLOADING None,
      ChunkManagerUpdate (5, None) FAILED None,
      ChunkManagerUpdate (6, None) FAILED None,
      RecomputeChunkPriorities [(6, 6)]]"

definition example_state :: MeshLayer where
  "example_state = run example_getPriorityTier example_getBasePriority example_events example_layer"

text \<open>
  The manifest of segment 5 fails to download once. The passes that follow find it
  \<open>FAILED\<close>, also after its children have arrived, and query the graph again each time.
\<close>

definition example_query :: query where
  "example_query = \<lparr>manifest = 0, manifestKey = (5, None), queried = 5, segmentID = 5, rootID = 5\<rparr>"

definition one_failure :: "event list" where
  "one_failure =
     [RecomputeChunkPriorities [(5, 5)],
      ChunkManagerUpdate (5, None) DOWNLOADING None,
      ChunkManagerUpdate (5, None) FAILED None,
      RecomputeChunkPriorities [(5, 5)]]"

definition second_cycle :: "event list" where
  "second_cycle =
     one_failure @ [ChildrenResolved example_query [7], RecomputeChunkPriorities [(5, 5)]]"

text \<open>
  The manifest of segment 5 is evicted while its query is outstanding; the segment is shown
  again and the download of the new manifest chunk fails as well.
\<close>

definition evicted_in_flight :: "event list" where
  "evicted_in_flight =
     one_failure @
     [ChunkEvicted (5, None),
      RecomputeChunkPriorities [(5, 5)],
      ChunkManagerUpdate (5, None) DOWNLOADING None,
      ChunkManagerUpdate (5, None) FAILED None,
      RecomputeChunkPriorities [(5, 5)]]"

section \<open>Mesh layer: what a pass is given\<close>

text \<open>
  Modelled from the spec: \<open>forEachVisibleSegment3D\<close> calls back for every currently visible 3D
  segment, with its resolved root; the enumeration \<open>segs\<close> names exactly the visible
  segments.
\<close>

definition enumerates :: "MeshLayer \<Rightarrow> (Uint64 \<times> Uint64) list \<Rightarrow> bool" where
  "enumerates s segs \<longleftrightarrow> fst ` set segs = visibleSegments3D s"

text \<open>
  Every loaded manifest of the source holds its fragment list, as
  \<open>decodeJsonManifestChunk\<close> assigns it before \<open>downloadSucceeded\<close>
  (\<open>freeSystemMemory\<close> resets it to \<open>null\<close>).
\<close>

definition loaded :: "ManifestChunk \<Rightarrow> bool" where
  "loaded c \<longleftrightarrow> state c \<in> {SYSTEM_MEMORY_WORKER, SYSTEM_MEMORY, GPU_MEMORY}"

definition loaded_manifest :: "MeshLayer \<Rightarrow> ObjectKey \<Rightarrow> ManifestChunk option" where
  "loaded_manifest s k =
     (case chunks s k of None \<Rightarrow> None | Some c \<Rightarrow> if loaded c then Some c else None)"

definition fragment_lists_present :: "MeshLayer \<Rightarrow> bool" where
  "fragment_lists_present s \<longleftrightarrow> (\<forall>k c. loaded_manifest s k = Some c \<longrightarrow> fragmentIds c \<noteq> None)"

text \<open>
  The requests that a visit of segment \<open>oid\<close> makes in layer \<open>s\<close>: the manifest, and the
  fragments of a loaded manifest.
\<close>

definition visit_requests :: "ChunkPriorityTier \<Rightarrow> number \<Rightarrow> Uint64 \<Rightarrow> MeshLayer \<Rightarrow> request list" where
  "visit_requests tier basePriority oid s =
     (let k = getObjectKey oid (layerClipBounds s)
      in \<lparr>requestedChunk = Manifest k, priorityTier = tier,
           priority = num_add basePriority (Num 100)\<rparr> #
         (case loaded_manifest s k of
            None \<Rightarrow> []
          | Some c \<Rightarrow>
              map (\<lambda>f. \<lparr>requestedChunk = Fragment (key c, f), priorityTier = tier,
                         priority = num_add basePriority (Num 50)\<rparr>)
                (case fragmentIds c of None \<Rightarrow> [] | Some ids \<Rightarrow> ids)))"

text \<open>The example layer while it is not shown: its visibility is negative infinity.\<close>

definition hidden_layer :: MeshLayer where
  "hidden_layer = example_layer\<lparr>layerVisibility := NEGATIVE_INFINITY\<rparr>"

text \<open>
  A shown layer (finite visibility 2) whose only visible segment 5 has its manifest loaded,
  with two fragments.
\<close>

definition loaded_layer :: MeshLayer where
  "loaded_layer =
     example_layer
       \<lparr>chunks := [(5, None) \<mapsto>
                    \<lparr>identity = 0, key = (5, None), objectId = 5, fragmentIds = Some [''a'', ''b''],
                     clipBounds = None, state = SYSTEM_MEMORY\<rparr>],
        allocated := 1,
        visibleSegments3D := {5},
        layerVisibility := Visibility 2\<rparr>"

text \<open>
  The example layer with the manifest of segment 5 in GPU memory, its fragment list reset
  by \<open>freeSystemMemory\<close>.
\<close>

definition freed_layer :: MeshLayer where
  "freed_layer =
     example_layer
       \<lparr>chunks := [(5, None) \<mapsto>
                    \<lparr>identity = 0, key = (5, None), objectId = 5, fragmentIds = None,
                     clipBounds = None, state = GPU_MEMORY\<rparr>],
        allocated := 1\<rparr>"

text \<open>The layer with the loaded manifest, at a visibility of \<open>2\<close> to the power 53.\<close>

definition far_layer :: MeshLayer where
  "far_layer = loaded_layer\<lparr>layerVisibility := Visibility (2 ^ 53)\<rparr>"

section \<open>Mesh layer: the shared display state\<close>

text \<open>
  The sets that the layer shares with the display: the roots, the visible 3D segments and
  the links of the equivalence structure; and what the loop body of \<open>handleChildChunks\<close>
  does to them for one entry: nothing when the root is not a member, otherwise the children
  are added and linked to the root and then the deleted segments are removed.
\<close>

definition display_state :: "MeshLayer \<Rightarrow> Uint64 set \<times> Uint64 set \<times> (Uint64 \<times> Uint64) list" where
  "display_state s = (rootSegments s, visibleSegments3D s, segmentEquivalences s)"

definition entry_effect ::
  "Uint64 \<times> batch \<Rightarrow> Uint64 set \<times> Uint64 set \<times> (Uint64 \<times> Uint64) list \<Rightarrow>
     Uint64 set \<times> Uint64 set \<times> (Uint64 \<times> Uint64) list" where
  "entry_effect entry d =
     (case entry of (r, elements) \<Rightarrow>
      case d of (roots, visible, links) \<Rightarrow>
        if r \<notin> roots then d
        else (roots, (visible \<union> set (add elements)) - set (delete elements),
              links @ map (Pair r) (add elements)))"

text \<open>
  A layer from which root 5 has been deselected while a batch for it is pending (the query
  whose children it awaits is the one of the example run).
\<close>

definition deselected_layer :: MeshLayer where
  "deselected_layer =
     example_layer
       \<lparr>rootSegments := {6},
        requestedChildChunks := [(5, \<lparr>add = [7, 8], delete = [5]\<rparr>)]\<rparr>"

text \<open>
  A layer awaiting the children of three segments, 5, 6 and 9, that all resolve to root 5.
\<close>

definition example_query2 :: query where
  "example_query2 = \<lparr>manifest = 1, manifestKey = (6, None), queried = 6, segmentID = 6, rootID = 5\<rparr>"

definition example_query3 :: query where
  "example_query3 = \<lparr>manifest = 2, manifestKey = (9, None), queried = 9, segmentID = 9, rootID = 5\<rparr>"

definition batching_layer :: MeshLayer where
  "batching_layer =
     example_layer\<lparr>rootSegments := {5},
                   outstanding := [example_query, example_query2, example_query3]\<rparr>"

text \<open>
  The trace of a series of children responses, each at its time of arrival, and what the
  responses of one root accumulate in the pending map: an entry of the root is extended by
  the children and the deleted segments, and created at the end of the map when there is
  none.
\<close>

fun responses :: "(query \<times> Uint64 list \<times> nat) list \<Rightarrow> event list" where
  "responses [] = []"
| "responses ((q, children, t) # rs) = Clock t # ChildrenResolved q children # responses rs"

definition extend_entry ::
  "Uint64 \<Rightarrow> Uint64 list \<Rightarrow> Uint64 list \<Rightarrow> (Uint64 \<times> batch) list \<Rightarrow> (Uint64 \<times> batch) list" where
  "extend_entry r children segments m =
     (if r \<in> fst ` set m
      then map (\<lambda>(r', b). if r' = r then (r', \<lparr>add = add b @ children, delete = delete b @ segments\<rparr>)
                          else (r', b)) m
      else m @ [(r, \<lparr>add = children, delete = segments\<rparr>)])"

text \<open>
  The responses arrive one within the debounce window of the other: each at most 99 ms
  after the one before, the first after time \<open>t0\<close>. Each is the response of a distinct
  outstanding query.
\<close>

fun within_window :: "nat \<Rightarrow> (query \<times> Uint64 list \<times> nat) list \<Rightarrow> bool" where
  "within_window t0 [] = True"
| "within_window t0 ((q, children, t) # rs) = (t0 \<le> t \<and> t < t0 + 100 \<and> within_window t rs)"

fun awaited :: "query list \<Rightarrow> query list \<Rightarrow> bool" where
  "awaited [] pending = True"
| "awaited (q # qs) pending = (q \<in> set pending \<and> awaited qs (remove1 q pending))"

definition last_arrival :: "nat \<Rightarrow> (query \<times> Uint64 list \<times> nat) list \<Rightarrow> nat" where
  "last_arrival t0 rs = (if rs = [] then t0 else snd (snd (last rs)))"

section \<open>Chunked-graph leaf download (datasource/precomputed/backend.ts)\<close>

text \<open>
  A chunked-graph chunk holds, for every root segment (by its key), the leaves found in the
  chunk, or \<open>null\<close> while they are unresolved. The chunk position comes from
  \<open>computeChunkBounds\<close>, which is not among the source files, and is an argument here.
\<close>

record ChunkedGraphChunk =
  chunkDataSize :: "nat \<times> nat \<times> nat"
  mappings :: "(string \<times> Uint64 list option) list"

record ChunkedGraphSourceParameters =
  baseUrls :: "string list"
  path :: string

definition bounds_string :: "int \<times> int \<times> int \<Rightarrow> nat \<times> nat \<times> nat \<Rightarrow> string" where
  "bounds_string chunkPosition dataSize =
     (case chunkPosition of (p0, p1, p2) \<Rightarrow>
      case dataSize of (d0, d1, d2) \<Rightarrow>
        string_of_int p0 @ ''-'' @ string_of_int (p0 + int d0) @ ''_'' @
        string_of_int p1 @ ''-'' @ string_of_int (p1 + int d1) @ ''_'' @
        string_of_int p2 @ ''-'' @ string_of_int (p2 + int d2))"

text \<open>
  The loop over \<open>chunk.mappings.entries ()\<close>: for every entry whose value is \<open>null\<close>, the
  key and the path of the request pushed for it, in order.
\<close>

definition leaf_requests :: "string \<Rightarrow> string \<Rightarrow> (string \<times> Uint64 list option) list \<Rightarrow> (string \<times> string) list" where
  "leaf_requests p bounds ms =
     concat (map (\<lambda>(k, val).
                    if val = None then [(k, p @ ''/'' @ k @ ''/leaves?bounds='' @ bounds)] else [])
                 ms)"

text \<open>
  How one pushed promise settles: the transport's answer to the request (the parameter
  \<open>fetch\<close>, for \<open>sendHttpRequest (openShardedHttpRequest (baseUrls, requestPath))\<close>) followed by
  \<open>decodeChunkedGraphChunk\<close>, that is \<open>decodeSupervoxelArray\<close>, which is not among the source
  files and is the parameter \<open>decode\<close>; it yields the leaves stored under the key, or throws.
\<close>

definition sub_request ::
  "(string list \<Rightarrow> string \<Rightarrow> error + ArrayBuffer) \<Rightarrow> (string \<Rightarrow> ArrayBuffer \<Rightarrow> error + Uint64 list) \<Rightarrow>
     string list \<Rightarrow> string \<times> string \<Rightarrow> error + string \<times> Uint64 list" where
  "sub_request fetch decode urls req =
     (case req of (k, requestPath) \<Rightarrow>
      case fetch urls requestPath of
        Inl e \<Rightarrow> Inl e
      | Inr response \<Rightarrow>
          (case decode k response of
             Inl e \<Rightarrow> Inl e
           | Inr leaves \<Rightarrow> Inr (k, leaves)))"

text \<open>
  \<open>Promise.all\<close> over promises whose eventual outcomes are \<open>outcomes\<close>, observed when the
  promises with the indices \<open>order\<close> have settled, in that order: rejected with the first
  rejection seen, fulfilled once all have fulfilled, pending otherwise.
\<close>

datatype 'a promise = Pending | Fulfilled 'a | Rejected error

definition rejections :: "(error + 'a) list \<Rightarrow> nat list \<Rightarrow> error list" where
  "rejections outcomes order =
     concat (map (\<lambda>i. if i < length outcomes
                        then (case outcomes ! i of Inl e \<Rightarrow> [e] | Inr _ \<Rightarrow> [])
                        else [])
                 order)"

definition Promise_all :: "(error + 'a) list \<Rightarrow> nat list \<Rightarrow> 'a list promise" where
  "Promise_all outcomes order =
     (case rejections outcomes order of
        e # _ \<Rightarrow> Rejected e
      | [] \<Rightarrow>
          if \<forall>i < length outcomes. i \<in> set order
          then Fulfilled (concat (map (\<lambda>x. case x of Inl _ \<Rightarrow> [] | Inr v \<Rightarrow> [v]) outcomes))
          else Pending)"

text \<open>\<open>decodeSupervoxelArray\<close> stores the leaves under the key of the root.\<close>

definition store_leaves ::
  "string \<times> Uint64 list \<Rightarrow> (string \<times> Uint64 list option) list \<Rightarrow> (string \<times> Uint64 list option) list" where
  "store_leaves kv ms = map (\<lambda>(k, val). if k = fst kv then (k, Some (snd kv)) else (k, val)) ms"

text \<open>
  \<open>download\<close>: the requests sent (all of them, before anything settles), and, when the
  sub-requests with the indices \<open>order\<close> have settled, the state of the returned promise
  \<open>Promise.all (promises).then (() => {return;})\<close> and the chunk.
\<close>

record download_result =
  sent :: "string list"
  returned :: "unit promise"
  chunkAfter :: ChunkedGraphChunk

definition download ::
  "(string list \<Rightarrow> string \<Rightarrow> error + ArrayBuffer) \<Rightarrow> (string \<Rightarrow> ArrayBuffer \<Rightarrow> error + Uint64 list) \<Rightarrow>
     ChunkedGraphSourceParameters \<Rightarrow> int \<times> int \<times> int \<Rightarrow> ChunkedGraphChunk \<Rightarrow> nat list \<Rightarrow>
     download_result" where
  "download fetch decode parameters chunkPosition c order =
     (let bounds = bounds_string chunkPosition (chunkDataSize c);
          reqs = leaf_requests (path parameters) bounds (mappings c);
          outcomes = map (sub_request fetch decode (baseUrls parameters)) reqs
      in \<lparr>sent = map snd reqs,
          returned = (case Promise_all outcomes order of
                        Pending \<Rightarrow> Pending
                      | Fulfilled _ \<Rightarrow> Fulfilled ()
                      | Rejected e \<Rightarrow> Rejected e),
          chunkAfter = c\<lparr>mappings :=
            fold (\<lambda>i ms. if i < length outcomes
                          then (case outcomes ! i of Inl _ \<Rightarrow> ms | Inr kv \<Rightarrow> store_leaves kv ms)
                          else ms)
                 order (mappings c)\<rparr>\<rparr>)"

text \<open>The keys of the roots whose leaves are unresolved in a chunk.\<close>

definition unresolved :: "ChunkedGraphChunk \<Rightarrow> string list" where
  "unresolved c = map fst (filter (\<lambda>(k, val). val = None) (mappings c))"

text \<open>
  An example: a chunk at the origin with roots 5 and 7 unresolved and root 6 resolved, a
  transport that fails on root 7 only, and a decoder that finds no leaves.
\<close>

definition example_chunk :: ChunkedGraphChunk where
  "example_chunk = \<lparr>chunkDataSize = (64, 64, 32),
                    mappings = [(''5'', None), (''6'', Some [1]), (''7'', None)]\<rparr>"

definition example_parameters :: ChunkedGraphSourceParameters where
  "example_parameters = \<lparr>baseUrls = [''https://graph''], path = ''/1.0/segment''\<rparr>"

definition example_fetch :: "string list \<Rightarrow> string \<Rightarrow> error + ArrayBuffer" where
  "example_fetch urls requestPath =
     (if requestPath = ''/1.0/segment/7/leaves?bounds=0-64_0-64_0-32'' then Inl (HttpError 500)
      else Inr [])"

definition example_decode :: "string \<Rightarrow> ArrayBuffer \<Rightarrow> error + Uint64 list" where
  "example_decode k response = Inr []"

text \<open>A transport on which every request succeeds.\<close>

definition example_fetch_ok :: "string list \<Rightarrow> string \<Rightarrow> error + ArrayBuffer" where
  "example_fetch_ok urls requestPath = Inr []"

text \<open>A decoder that throws on the response for root 5.\<close>

definition example_decode_failing :: "string \<Rightarrow> ArrayBuffer \<Rightarrow> error + Uint64 list" where
  "example_decode_failing k response =
     (if k = ''5'' then Inl (Error ''invalid supervoxel array'') else Inr [])"

text \<open>The path of the request that the download sends for the root with key \<open>k\<close>.\<close>

definition leaves_request :: "ChunkedGraphSourceParameters \<Rightarrow> int \<times> int \<times> int \<Rightarrow> ChunkedGraphChunk \<Rightarrow> string \<Rightarrow> string" where
  "leaves_request parameters chunkPosition c k =
     path parameters @ ''/'' @ k @ ''/leaves?bounds='' @ bounds_string chunkPosition (chunkDataSize c)"

section \<open>Vertex normals (mesh/backend.ts)\<close>

text \<open>
  A \<open>vec3\<close> is a \<open>Float32Array\<close> of three elements. \<open>vec3.cross\<close> and \<open>vec3.normalize\<close>
  are those of the gl-matrix library that the source imports (not part of the repository):
  they compute in binary64 and store each component into the result, rounding it to
  binary32; \<open>normalize\<close> scales by the inverse length when the squared length is greater
  than 0 and otherwise leaves the vector as it is.
\<close>

type_synonym vec3 = "number \<times> number \<times> number"




definition vec3_normalize :: "vec3 \<Rightarrow> vec3" where
  "vec3_normalize a =
     (case a of (x, y, z) \<Rightarrow>
        let len = num_add (num_add (num_mul x x) (num_mul y y)) (num_mul z z)
        in if num_positive len
           then let len' = num_inv_sqrt len
                in (fround (num_mul x len'), fround (num_mul y len'), fround (num_mul z len'))
           else a)"








text \<open>The last loop: every complete subarray of three components is normalized in place.\<close>

fun normalize_all :: "number list \<Rightarrow> number list" where
  "normalize_all (x # y # z # rest) =
     (case vec3_normalize (x, y, z) of (x', y', z') \<Rightarrow> x' # y' # z' # normalize_all rest)"
| "normalize_all rest = rest"














section \<open>Graph client: properties\<close>

text \<open>From here on the file holds the properties of the definitions above.\<close>

text \<open>
  Claim C4. With no graph server configured (the url is the empty string), \<open>getRoot\<close>
  resolves to the segment id of the selection it was given, unchanged, and sends no
  request, for every selection, host byte order and behaviour of the network.
\<close>

theorem getRoot_no_server_identity:
  "getRoot native net '''' selection = ([], Inr (segmentId selection))"
  by (simp add: getRoot_def)

text \<open>
  Claim C5. With no graph server configured, \<open>mergeSegments\<close> and \<open>splitSegments\<close> both
  reject with \<open>GRAPH_SERVER_NOT_SPECIFIED\<close> and send no request, for all arguments: the
  promise is rejected, not resolved.
\<close>

theorem merge_split_no_server_reject:
  "mergeSegments native net '''' first second = ([], Inl GRAPH_SERVER_NOT_SPECIFIED) \<and>
   splitSegments native net '''' firsts seconds = ([], Inl GRAPH_SERVER_NOT_SPECIFIED)"
  by (simp add: mergeSegments_def splitSegments_def)

section \<open>Geometry decoding: properties\<close>

lemma length_swapEndian32: "length (swapEndian32 bs) = length bs"
  by (induction bs rule: swapEndian32.induct) auto

lemma length_swapEndian16: "length (swapEndian16 bs) = length bs"
  by (induction bs rule: swapEndian16.induct) auto

lemma length_convertEndian32:
  "byteOffset v + byteLength v \<le> length b \<Longrightarrow> length (convertEndian32 native b v e) = length b"
  by (auto simp: convertEndian32_def update_view_def view_bytes_def length_swapEndian32)

lemma length_convertEndian16:
  "byteOffset v + byteLength v \<le> length b \<Longrightarrow> length (convertEndian16 native b v e) = length b"
  by (auto simp: convertEndian16_def update_view_def view_bytes_def length_swapEndian16)

lemma view32_bound: "view32 b off len = Inr v \<Longrightarrow> byteOffset v + byteLength v \<le> length b"
  by (auto simp: view32_def split: if_splits option.splits)

lemma view32_length_cong: "length b = length b' \<Longrightarrow> view32 b off len = view32 b' off len"
  by (cases len) (simp_all add: view32_def)

text \<open>
  Claim C7. Whenever the index array that \<open>decodeVertexPositionsAndIndices\<close> decodes (the
  \<open>Uint32Array\<close> its arguments determine) has a number of entries that is not an exact
  multiple of \<open>verticesPerPrimitive\<close>, the function throws the \<open>Error\<close> with the message
  of the source instead of returning, for every host and data byte order.
\<close>

theorem decode_not_multiple_error:
  assumes "index_array verticesPerPrimitive data vertexByteOffset numVertices indexByteOffset
             numPrimitives = Inr iv"
    and "not_multiple (byteLength iv div 4) verticesPerPrimitive"
  shows "decodeVertexPositionsAndIndices native verticesPerPrimitive data endianness
           vertexByteOffset numVertices indexByteOffset numPrimitives =
         Inl (indices_error verticesPerPrimitive (byteLength iv div 4))"
proof -
  from assms(1) obtain vv where vv: "view32 data vertexByteOffset (Some (numVertices * 3)) = Inr vv"
    by (auto simp: index_array_def split: sum.splits)
  have len: "length (convertEndian32 native data vv endianness) = length data"
    using view32_bound [OF vv] by (rule length_convertEndian32)
  have iv: "view32 (convertEndian32 native data vv endianness)
              (case indexByteOffset of None \<Rightarrow> vertexByteOffset + 12 * numVertices | Some off \<Rightarrow> off)
              (map_option (\<lambda>numPrimitives. numPrimitives * verticesPerPrimitive) numPrimitives) = Inr iv"
    using assms(1) vv view32_length_cong [OF len] by (simp add: index_array_def)
  show ?thesis
    using vv iv assms(2) by (simp add: decodeVertexPositionsAndIndices_def Let_def)
qed

text \<open>
  The example of the claim: a fragment of no vertices followed by 10 indices (a 4-byte header
  and 40 bytes), decoded as triangles.
\<close>

theorem decode_not_multiple_error_witness:
  "index_array 3 (replicate 44 0) 4 0 None None = Inr \<lparr>byteOffset = 4, byteLength = 40\<rparr> \<and>
   not_multiple 10 3 \<and>
   decodeVertexPositionsAndIndices LITTLE 3 (replicate 44 0) LITTLE 4 0 None None =
     Inl (Error ''Number of indices is not a multiple of 3: 10.'')"
proof -
  have a: "index_array 3 (replicate 44 0) 4 0 None None = Inr \<lparr>byteOffset = 4, byteLength = 40\<rparr>"
    by (simp add: index_array_def view32_def)
  have b: "not_multiple (byteLength \<lparr>byteOffset = 4, byteLength = 40\<rparr> div 4) 3"
    by (simp add: not_multiple_def)
  have c: "indices_error 3 10 = Error ''Number of indices is not a multiple of 3: 10.''"
    by (simp add: indices_error_def digit_char_def)
  show ?thesis
    using decode_not_multiple_error [OF a b, of LITTLE LITTLE] a b c by simp
qed

section \<open>Skeleton decoding: properties\<close>

lemma length_view_bytes: "byteOffset v + byteLength v \<le> length b \<Longrightarrow> length (view_bytes b v) = byteLength v"
  by (simp add: view_bytes_def)

lemma length_update_view:
  assumes "byteOffset v + byteLength v \<le> length b" "\<And>xs. length (f xs) = length xs"
  shows "length (update_view b v f) = length b"
  using assms by (simp add: update_view_def view_bytes_def)

lemma update_view_inside:
  assumes "byteOffset v + byteLength v \<le> length b" "\<And>xs. length (f xs) = length xs"
  shows "view_bytes (update_view b v f) v = f (view_bytes b v)"
proof -
  have l: "length (f (view_bytes b v)) = byteLength v"
    using assms by (simp add: length_view_bytes)
  have "drop (byteOffset v) (update_view b v f) = f (view_bytes b v) @ drop (byteOffset v + byteLength v) b"
    using assms(1) by (simp add: update_view_def)
  then show ?thesis
    using l by (simp add: view_bytes_def [of "update_view b v f"])
qed

lemma update_view_outside:
  assumes "byteOffset v + byteLength v \<le> length b" "\<And>xs. length (f xs) = length xs"
    and "p < byteOffset v \<or> byteOffset v + byteLength v \<le> p"
  shows "update_view b v f ! p = b ! p"
proof -
  have l: "length (f (view_bytes b v)) = byteLength v"
    using assms by (simp add: length_view_bytes)
  show ?thesis
  proof (cases "p < byteOffset v")
    case True
    then show ?thesis using assms(1) by (simp add: update_view_def nth_append)
  next
    case False
    with assms(3) have ge: "byteOffset v + byteLength v \<le> p" by simp
    then have n1: "\<not> p - byteOffset v < byteLength v" and n2: "\<not> p < byteOffset v"
      and e: "byteOffset v + byteLength v + (p - byteOffset v - byteLength v) = p"
      by arith+
    show ?thesis
      using assms(1) l n1 n2 e by (simp add: update_view_def nth_append)
  qed
qed

lemma view_bytes_cong:
  assumes "length b = length b'"
    and "\<And>p. byteOffset v \<le> p \<Longrightarrow> p < byteOffset v + byteLength v \<Longrightarrow> p < length b \<Longrightarrow> b ! p = b' ! p"
  shows "view_bytes b v = view_bytes b' v"
proof (rule nth_equalityI)
  show "length (view_bytes b v) = length (view_bytes b' v)"
    using assms(1) by (simp add: view_bytes_def)
next
  fix i assume "i < length (view_bytes b v)"
  then have i: "i < byteLength v" "byteOffset v + i < length b"
    by (auto simp: view_bytes_def)
  then show "view_bytes b v ! i = view_bytes b' v ! i"
    using assms by (simp add: view_bytes_def)
qed

lemma convert_attribute_cases:
  "convert_attribute native width b v = b \<and> conversion_for_width native width = (\<lambda>bs. bs) \<or>
   convert_attribute native width b v = update_view b v swapEndian16 \<and> conversion_for_width native width = swapEndian16 \<or>
   convert_attribute native width b v = update_view b v swapEndian32 \<and> conversion_for_width native width = swapEndian32"
  by (cases native) (auto simp: convert_attribute_def conversion_for_width_def convertEndian16_def convertEndian32_def fun_eq_iff)

lemma convert_attribute_props:
  assumes "byteOffset v + byteLength v \<le> length b"
  shows "length (convert_attribute native width b v) = length b"
    and "p < byteOffset v \<or> byteOffset v + byteLength v \<le> p \<Longrightarrow> convert_attribute native width b v ! p = b ! p"
    and "view_bytes (convert_attribute native width b v) v = conversion_for_width native width (view_bytes b v)"
  using convert_attribute_cases [of native width b v] assms
  by (auto simp: length_update_view update_view_outside update_view_inside length_swapEndian16 length_swapEndian32)

lemma attribute_step_inv:
  assumes inv: "attrs_inv native response start seen st"
    and step: "attribute_step native numVertices info st = Inr st'"
  shows "attrs_inv native response start (seen @ [info]) st'"
proof -
  obtain buf cur attrs where st: "st = (buf, cur, attrs)" by (cases st) auto
  define a where "a = \<lparr>byteOffset = cur, byteLength = bytesPerVertex info * numVertices\<rparr>"
  define buf' where "buf' = convert_attribute native (bytesPerVertex info) buf a"
  from step st have fits: "cur + bytesPerVertex info * numVertices \<le> length buf"
    and st': "st' = (buf', cur + bytesPerVertex info * numVertices, attrs @ [a])"
    by (auto simp: attribute_step_def view8_def Let_def a_def buf'_def convert_attribute_def split: if_splits)
  from inv st have len: "length buf = length response" and sc: "start \<le> cur"
    and out: "\<And>p. p < start \<or> cur \<le> p \<Longrightarrow> buf ! p = response ! p"
    and la: "length attrs = length seen"
    and old: "\<And>i. i < length attrs \<Longrightarrow>
           start \<le> byteOffset (attrs ! i) \<and>
           byteOffset (attrs ! i) + byteLength (attrs ! i) \<le> cur \<and>
           byteOffset (attrs ! i) + byteLength (attrs ! i) \<le> length response \<and>
           view_bytes buf (attrs ! i) =
             conversion_for_width native (bytesPerVertex (seen ! i)) (view_bytes response (attrs ! i))"
    by (auto simp: attrs_inv_def)
  have ab: "byteOffset a + byteLength a \<le> length buf" using fits by (simp add: a_def)
  note cp = convert_attribute_props [OF ab, where native = native and width = "bytesPerVertex info", folded buf'_def]
  have l': "length buf' = length response" using cp(1) len by simp
  have out': "buf' ! p = response ! p" if "p < start \<or> cur + bytesPerVertex info * numVertices \<le> p" for p
  proof -
    from that sc have "p < byteOffset a \<or> byteOffset a + byteLength a \<le> p" by (auto simp: a_def)
    then have "buf' ! p = buf ! p" by (rule cp(2))
    moreover from that sc have "p < start \<or> cur \<le> p" by auto
    ultimately show ?thesis using out by simp
  qed
  have new: "view_bytes buf' a = conversion_for_width native (bytesPerVertex info) (view_bytes response a)"
  proof -
    have "view_bytes buf a = view_bytes response a"
      by (rule view_bytes_cong [OF len]) (simp add: a_def out)
    then show ?thesis using cp(3) by simp
  qed
  have old': "view_bytes buf' (attrs ! i) =
      conversion_for_width native (bytesPerVertex (seen ! i)) (view_bytes response (attrs ! i))"
    if "i < length attrs" for i
  proof -
    have "view_bytes buf' (attrs ! i) = view_bytes buf (attrs ! i)"
    proof (rule view_bytes_cong)
      show "length buf' = length buf" using l' len by simp
    next
      fix p assume "p < byteOffset (attrs ! i) + byteLength (attrs ! i)"
      with old [OF that] have "p < byteOffset a" by (simp add: a_def)
      then show "buf' ! p = buf ! p" using cp(2) by simp
    qed
    then show ?thesis using old [OF that] by simp
  qed
  have bnd: "start \<le> byteOffset (attrs ! i) \<and>
      byteOffset (attrs ! i) + byteLength (attrs ! i) \<le> cur + bytesPerVertex info * numVertices \<and>
      byteOffset (attrs ! i) + byteLength (attrs ! i) \<le> length response"
    if "i < length attrs" for i
    using old [OF that] by simp
  have all: "start \<le> byteOffset ((attrs @ [a]) ! i) \<and>
      byteOffset ((attrs @ [a]) ! i) + byteLength ((attrs @ [a]) ! i)
        \<le> cur + bytesPerVertex info * numVertices \<and>
      byteOffset ((attrs @ [a]) ! i) + byteLength ((attrs @ [a]) ! i) \<le> length response \<and>
      view_bytes buf' ((attrs @ [a]) ! i) =
        conversion_for_width native (bytesPerVertex ((seen @ [info]) ! i))
          (view_bytes response ((attrs @ [a]) ! i))"
    if "i < length (attrs @ [a])" for i
  proof (cases "i < length attrs")
    case True
    then show ?thesis using bnd [OF True] old' [OF True] la by (simp add: nth_append)
  next
    case False
    with that have "i = length attrs" by simp
    then show ?thesis using new sc fits len la by (simp add: nth_append a_def)
  qed
  have "start \<le> cur + bytesPerVertex info * numVertices" using sc by simp
  then show ?thesis
    unfolding st' attrs_inv_def
    using l' out' la all by simp
qed

lemma decode_attributes_inv:
  "attrs_inv native response start seen st \<Longrightarrow>
   decode_attributes native numVertices infos st = Inr st' \<Longrightarrow>
   attrs_inv native response start (seen @ infos) st'"
proof (induction infos arbitrary: st seen)
  case Nil
  then show ?case by simp
next
  case (Cons info infos)
  from Cons.prems(2) obtain st1 where s1: "attribute_step native numVertices info st = Inr st1"
    and s2: "decode_attributes native numVertices infos st1 = Inr st'"
    by (auto split: sum.splits)
  from Cons.IH [OF attribute_step_inv [OF Cons.prems(1) s1] s2] show ?case by simp
qed

lemma convertEndian32_outside:
  assumes "byteOffset v + byteLength v \<le> length b"
    and "p < byteOffset v \<or> byteOffset v + byteLength v \<le> p"
  shows "convertEndian32 native b v e ! p = b ! p"
  using assms by (simp add: convertEndian32_def update_view_outside length_swapEndian32)

lemma view32_Some:
  "view32 b off (Some n) = Inr v \<Longrightarrow> byteOffset v = off \<and> byteLength v = 4 * n \<and> off + 4 * n \<le> length b"
  by (auto simp: view32_def split: if_splits)

lemma decode_buffer_between:
  assumes "decodeVertexPositionsAndIndices native vpp data e vbo nv (Some ibo) (Some np) = Inr d"
  shows "length (buffer d) = length data"
    and "vbo + 12 * nv \<le> p \<Longrightarrow> p < ibo \<Longrightarrow> buffer d ! p = data ! p"
proof -
  from assms obtain vv iv where
    vv: "view32 data vbo (Some (nv * 3)) = Inr vv"
    and iv: "view32 (convertEndian32 native data vv e) ibo (Some (np * vpp)) = Inr iv"
    and d: "buffer d = convertEndian32 native (convertEndian32 native data vv e) iv e"
    by (auto simp: decodeVertexPositionsAndIndices_def Let_def split: sum.splits if_splits)
  note v = view32_Some [OF vv] and i = view32_Some [OF iv]
  have l1: "length (convertEndian32 native data vv e) = length data"
    using v by (simp add: length_convertEndian32)
  show "length (buffer d) = length data"
    using i l1 by (simp add: d length_convertEndian32)
  assume p: "vbo + 12 * nv \<le> p" "p < ibo"
  have "buffer d ! p = convertEndian32 native data vv e ! p"
    unfolding d using i p by (intro convertEndian32_outside) auto
  also have "\<dots> = data ! p"
    using v p by (intro convertEndian32_outside) auto
  finally show "buffer d ! p = data ! p" .
qed

lemma decode_attributes_succeeds:
  "curOffset + sum_list (map (\<lambda>info. bytesPerVertex info * numVertices) infos) \<le> length buf \<Longrightarrow>
   \<exists>buf'. decode_attributes native numVertices infos (buf, curOffset, attrs) =
            Inr (buf', curOffset + sum_list (map (\<lambda>info. bytesPerVertex info * numVertices) infos),
                 attrs @ attribute_views numVertices curOffset infos) \<and>
          length buf' = length buf"
proof (induction infos arbitrary: buf curOffset attrs)
  case Nil
  then show ?case by simp
next
  case (Cons info infos)
  define a where "a = \<lparr>byteOffset = curOffset, byteLength = bytesPerVertex info * numVertices\<rparr>"
  define buf1 where "buf1 = convert_attribute native (bytesPerVertex info) buf a"
  from Cons.prems have fits: "byteOffset a + byteLength a \<le> length buf"
    by (simp add: a_def)
  have l1: "length buf1 = length buf"
    unfolding buf1_def by (rule convert_attribute_props(1) [OF fits])
  have step: "attribute_step native numVertices info (buf, curOffset, attrs) =
      Inr (buf1, curOffset + bytesPerVertex info * numVertices, attrs @ [a])"
    using fits by (simp add: attribute_step_def view8_def Let_def a_def buf1_def)
  from Cons.prems l1
  have "curOffset + bytesPerVertex info * numVertices +
          sum_list (map (\<lambda>info. bytesPerVertex info * numVertices) infos) \<le> length buf1"
    by simp
  from Cons.IH [OF this, of "attrs @ [a]"] obtain buf' where
    "decode_attributes native numVertices infos
        (buf1, curOffset + bytesPerVertex info * numVertices, attrs @ [a]) =
      Inr (buf', curOffset + bytesPerVertex info * numVertices +
                 sum_list (map (\<lambda>info. bytesPerVertex info * numVertices) infos),
           (attrs @ [a]) @ attribute_views numVertices
              (curOffset + bytesPerVertex info * numVertices) infos)"
    and "length buf' = length buf1"
    by blast
  with step l1 show ?case by (simp add: a_def add.assoc)
qed

lemma length_attribute_views: "length (attribute_views numVertices curOffset infos) = length infos"
  by (induction infos arbitrary: curOffset) auto

lemma decodeSkeletonChunk_succeeds:
  assumes nv: "getUint32_le response 0 = Inr numVertices"
    and ne: "getUint32_le response 4 = Inr numEdges"
    and al: "attributes_end numVertices infos mod 4 = 0"
    and fits: "attributes_end numVertices infos + 4 * (numEdges * 2) \<le> length response"
  shows "\<exists>chunk. decodeSkeletonChunk native response infos = Inr chunk \<and>
           vertexAttributes chunk = attribute_views numVertices (8 + numVertices * 4 * 3) infos"
proof -
  define total where "total = sum_list (map (\<lambda>info. bytesPerVertex info * numVertices) infos)"
  have e: "attributes_end numVertices infos = 8 + numVertices * 4 * 3 + total"
    by (simp add: attributes_end_def total_def)
  from fits e have "8 + numVertices * 4 * 3 + total \<le> length response" by simp
  from decode_attributes_succeeds [OF this [unfolded total_def], of native "[]"]
  obtain response1 where
    loop: "decode_attributes native numVertices infos (response, 8 + numVertices * 4 * 3, []) =
             Inr (response1, 8 + numVertices * 4 * 3 + total,
                  attribute_views numVertices (8 + numVertices * 4 * 3) infos)"
    and l1: "length response1 = length response"
    by (auto simp: total_def)
  define vv where "vv = \<lparr>byteOffset = 8, byteLength = 4 * (numVertices * 3)\<rparr>"
  have vv: "view32 response1 8 (Some (numVertices * 3)) = Inr vv"
    using fits e l1 by (simp add: view32_def vv_def)
  have l2: "length (convertEndian32 native response1 vv LITTLE) = length response"
    using view32_bound [OF vv] l1 by (simp add: length_convertEndian32)
  define iv where "iv = \<lparr>byteOffset = 8 + numVertices * 4 * 3 + total,
                         byteLength = 4 * (numEdges * 2)\<rparr>"
  have iv: "view32 (convertEndian32 native response1 vv LITTLE) (8 + numVertices * 4 * 3 + total)
              (Some (numEdges * 2)) = Inr iv"
    using fits al e l2 by (simp add: view32_def iv_def)
  have nm: "\<not> not_multiple (byteLength iv div 4) 2"
    by (simp add: not_multiple_def iv_def)
  have "decodeVertexPositionsAndIndices native 2 response1 LITTLE 8 numVertices
          (Some (8 + numVertices * 4 * 3 + total)) (Some numEdges) =
        Inr \<lparr>buffer = convertEndian32 native (convertEndian32 native response1 vv LITTLE) iv LITTLE,
             vertexPositions = vv, indices = iv\<rparr>"
    using vv iv nm by (simp add: decodeVertexPositionsAndIndices_def Let_def)
  then show ?thesis
    using nv ne loop
    by (simp add: decodeSkeletonChunk_def decodeSkeletonVertexPositionsAndIndices_def)
qed

lemma converted_attribute:
  assumes "decodeSkeletonChunk native response infos = Inr chunk"
    and "i < length infos"
  shows "view_bytes (buffer chunk) (vertexAttributes chunk ! i) =
           conversion_for_width native (bytesPerVertex (infos ! i))
             (view_bytes response (vertexAttributes chunk ! i))"
proof -
  from assms(1) obtain numVertices numEdges response1 curOffset attributes d where
    loop: "decode_attributes native numVertices infos (response, 8 + numVertices * 4 * 3, []) =
             Inr (response1, curOffset, attributes)"
    and dec: "decodeVertexPositionsAndIndices native 2 response1 LITTLE 8 numVertices
                (Some curOffset) (Some numEdges) = Inr d"
    and chunk: "buffer chunk = buffer d" "vertexAttributes chunk = attributes"
    by (auto simp: decodeSkeletonChunk_def decodeSkeletonVertexPositionsAndIndices_def
             split: sum.splits prod.splits)
  have "attrs_inv native response (8 + numVertices * 4 * 3) [] (response, 8 + numVertices * 4 * 3, [])"
    by (simp add: attrs_inv_def)
  from decode_attributes_inv [OF this loop]
  have inv: "attrs_inv native response (8 + numVertices * 4 * 3) infos (response1, curOffset, attributes)"
    by simp
  then have la: "length attributes = length infos"
    and l1: "length response1 = length response"
    and a: "8 + numVertices * 4 * 3 \<le> byteOffset (attributes ! i)"
           "byteOffset (attributes ! i) + byteLength (attributes ! i) \<le> curOffset"
    and conv: "view_bytes response1 (attributes ! i) =
             conversion_for_width native (bytesPerVertex (infos ! i)) (view_bytes response (attributes ! i))"
    using assms(2) by (auto simp: attrs_inv_def)
  have "view_bytes (buffer d) (attributes ! i) = view_bytes response1 (attributes ! i)"
  proof (rule view_bytes_cong)
    show "length (buffer d) = length response1" by (rule decode_buffer_between(1) [OF dec])
  next
    fix p assume "byteOffset (attributes ! i) \<le> p" "p < byteOffset (attributes ! i) + byteLength (attributes ! i)"
    with a have "8 + 12 * numVertices \<le> p" "p < curOffset" by auto
    then show "buffer d ! p = response1 ! p" by (rule decode_buffer_between(2) [OF dec])
  qed
  with conv chunk show ?thesis by simp
qed

text \<open>
  Claim C10. For every response that holds its header, its vertex positions, the attributes
  of the schema and its edge indices (the indices beginning at a multiple of 4, as the
  \<open>Uint32Array\<close> over them requires), \<open>decodeSkeletonChunk\<close> returns a chunk, whatever the
  widths of the attributes; the chunk's attribute views are laid out one after the other
  behind the vertex positions, each as long as its per-vertex width times the number of
  vertices; and the bytes of every attribute are, at the end, the bytes received for it
  under the conversion chosen by its per-vertex byte width alone (scalar size times
  component count): the 16-bit conversion for width 2, the 32-bit conversion for widths 4
  and 8, and for every other width (1 for a uint8, 12 for a 3-component float32) the bytes
  as received. The conversions of the other attributes, of the vertex positions and of the
  edge indices leave them untouched.
\<close>

theorem skeleton_attribute_conversion:
  assumes "getUint32_le response 0 = Inr numVertices"
    and "getUint32_le response 4 = Inr numEdges"
    and "attributes_end numVertices infos mod 4 = 0"
    and "attributes_end numVertices infos + 4 * (numEdges * 2) \<le> length response"
    and "i < length infos"
  shows "\<exists>chunk. decodeSkeletonChunk native response infos = Inr chunk \<and>
           vertexAttributes chunk = attribute_views numVertices (8 + numVertices * 4 * 3) infos \<and>
           view_bytes (buffer chunk) (vertexAttributes chunk ! i) =
             conversion_for_width native (bytesPerVertex (infos ! i))
               (view_bytes response (vertexAttributes chunk ! i))"
proof -
  from decodeSkeletonChunk_succeeds [OF assms(1-4)] obtain chunk where
    c: "decodeSkeletonChunk native response infos = Inr chunk"
       "vertexAttributes chunk = attribute_views numVertices (8 + numVertices * 4 * 3) infos"
    by blast
  from converted_attribute [OF c(1) assms(5)] c show ?thesis by blast
qed

text \<open>
  On a big-endian host the decoder returns the example with the 2-byte-wide attributes swapped
  in 16-bit groups, the 4-byte-wide and the 8-byte-wide attribute swapped in 32-bit groups,
  and the attributes of widths 12 and 1 as received. (The last attribute, two uint8
  components, has width 2 and is swapped like a uint16.)
\<close>

theorem skeleton_attribute_conversion_witness:
  "getUint32_le example_skeleton 0 = Inr 1 \<and>
   getUint32_le example_skeleton 4 = Inr 0 \<and>
   attributes_end 1 example_attributes = 52 \<and>
   length example_skeleton = 52 \<and>
   length example_attributes = 8 \<and>
   map (\<lambda>info. bytesPerVertex info) example_attributes = [12, 2, 2, 4, 8, 1, 1, 2] \<and>
   buffer (projr (decodeSkeletonChunk BIG example_skeleton example_attributes)) =
     [1, 0, 0, 0,  0, 0, 0, 0,
      63, 128, 0, 0,  64, 0, 0, 0,  64, 64, 0, 0,
      1, 2, 3, 4,  5, 6, 7, 8,  9, 10, 11, 12,
      14, 13,
      16, 15,
      20, 19, 18, 17,
      24, 23, 22, 21,  28, 27, 26, 25,
      29,
      30,
      32, 31] \<and>
   (\<exists>chunk. decodeSkeletonChunk BIG example_skeleton example_attributes = Inr chunk \<and>
      vertexAttributes chunk =
        [\<lparr>byteOffset = 20, byteLength = 12\<rparr>, \<lparr>byteOffset = 32, byteLength = 2\<rparr>,
         \<lparr>byteOffset = 34, byteLength = 2\<rparr>, \<lparr>byteOffset = 36, byteLength = 4\<rparr>,
         \<lparr>byteOffset = 40, byteLength = 8\<rparr>, \<lparr>byteOffset = 48, byteLength = 1\<rparr>,
         \<lparr>byteOffset = 49, byteLength = 1\<rparr>, \<lparr>byteOffset = 50, byteLength = 2\<rparr>] \<and>
      view_bytes (buffer chunk) (vertexAttributes chunk ! 3) = [20, 19, 18, 17] \<and>
      view_bytes (buffer chunk) (vertexAttributes chunk ! 4) = [24, 23, 22, 21, 28, 27, 26, 25])"
proof -
  have h: "getUint32_le example_skeleton 0 = Inr 1" "getUint32_le example_skeleton 4 = Inr 0"
    by code_simp+
  have w: "map (\<lambda>info. bytesPerVertex info) example_attributes = [12, 2, 2, 4, 8, 1, 1, 2]"
    by (simp add: example_attributes_def bytesPerVertex_def)
  have e: "attributes_end 1 example_attributes = 52"
    by (simp add: attributes_end_def example_attributes_def bytesPerVertex_def)
  have l: "length example_skeleton = 52" "length example_attributes = 8"
    by (simp_all add: example_skeleton_def example_attributes_def)
  have a: "attributes_end 1 example_attributes mod 4 = 0"
    "attributes_end 1 example_attributes + 4 * (0 * 2) \<le> length example_skeleton"
    using e l by simp_all
  have v: "attribute_views 1 (8 + 1 * 4 * 3) example_attributes =
        [\<lparr>byteOffset = 20, byteLength = 12\<rparr>, \<lparr>byteOffset = 32, byteLength = 2\<rparr>,
         \<lparr>byteOffset = 34, byteLength = 2\<rparr>, \<lparr>byteOffset = 36, byteLength = 4\<rparr>,
         \<lparr>byteOffset = 40, byteLength = 8\<rparr>, \<lparr>byteOffset = 48, byteLength = 1\<rparr>,
         \<lparr>byteOffset = 49, byteLength = 1\<rparr>, \<lparr>byteOffset = 50, byteLength = 2\<rparr>]"
    by (simp add: example_attributes_def bytesPerVertex_def)
  have b: "buffer (projr (decodeSkeletonChunk BIG example_skeleton example_attributes)) =
     [1, 0, 0, 0,  0, 0, 0, 0,
      63, 128, 0, 0,  64, 0, 0, 0,  64, 64, 0, 0,
      1, 2, 3, 4,  5, 6, 7, 8,  9, 10, 11, 12,
      14, 13,
      16, 15,
      20, 19, 18, 17,
      24, 23, 22, 21,  28, 27, 26, 25,
      29,
      30,
      32, 31]"
    by code_simp
  have r3: "conversion_for_width BIG 4 (view_bytes example_skeleton \<lparr>byteOffset = 36, byteLength = 4\<rparr>) =
      [20, 19, 18, 17]"
    and r4: "conversion_for_width BIG 8 (view_bytes example_skeleton \<lparr>byteOffset = 40, byteLength = 8\<rparr>) =
      [24, 23, 22, 21, 28, 27, 26, 25]"
    by (simp_all add: conversion_for_width_def view_bytes_def example_skeleton_def)
  have i3: "3 < length example_attributes" and i4: "4 < length example_attributes"
    by (simp_all add: l)
  have w3: "bytesPerVertex (example_attributes ! 3) = 4" and w4: "bytesPerVertex (example_attributes ! 4) = 8"
    by (simp_all add: example_attributes_def bytesPerVertex_def)
  from skeleton_attribute_conversion [OF h a i3, of BIG] skeleton_attribute_conversion [OF h a i4, of BIG]
  have "\<exists>chunk. decodeSkeletonChunk BIG example_skeleton example_attributes = Inr chunk \<and>
      vertexAttributes chunk =
        [\<lparr>byteOffset = 20, byteLength = 12\<rparr>, \<lparr>byteOffset = 32, byteLength = 2\<rparr>,
         \<lparr>byteOffset = 34, byteLength = 2\<rparr>, \<lparr>byteOffset = 36, byteLength = 4\<rparr>,
         \<lparr>byteOffset = 40, byteLength = 8\<rparr>, \<lparr>byteOffset = 48, byteLength = 1\<rparr>,
         \<lparr>byteOffset = 49, byteLength = 1\<rparr>, \<lparr>byteOffset = 50, byteLength = 2\<rparr>] \<and>
      view_bytes (buffer chunk) (vertexAttributes chunk ! 3) = [20, 19, 18, 17] \<and>
      view_bytes (buffer chunk) (vertexAttributes chunk ! 4) = [24, 23, 22, 21, 28, 27, 26, 25]"
    unfolding v w3 w4 by (auto simp: r3 r4)
  with h e l w b show ?thesis by simp
qed

section \<open>Numbers: properties\<close>

lemma round_half_even_of_int: "round_half_even (of_int m) = m"
  by (simp add: round_half_even_def)

lemma exponent_eq:
  assumes "2 powr of_int n \<le> \<bar>x\<bar>" "\<bar>x\<bar> < 2 powr (of_int n + 1)" "emin \<le> n"
  shows "exponent emin x = n"
proof -
  have pos: "0 < \<bar>x\<bar>" using assms(1) by (smt (verit) powr_gt_zero)
  have "of_int n \<le> log 2 \<bar>x\<bar>"
    using assms(1) pos by (simp add: le_log_iff)
  moreover have "log 2 \<bar>x\<bar> < of_int n + 1"
    using assms(2) pos by (simp add: log_less_iff)
  ultimately have "\<lfloor>log 2 \<bar>x\<bar>\<rfloor> = n" by linarith
  then show ?thesis using assms(3) by (simp add: exponent_def)
qed

lemma exponent_eq_nat:
  assumes "2 ^ n \<le> \<bar>x\<bar>" "\<bar>x\<bar> < 2 ^ Suc n" "emin \<le> int n"
  shows "exponent emin x = int n"
proof (rule exponent_eq)
  show "2 powr of_int (int n) \<le> \<bar>x\<bar>" using assms(1) by (simp add: powr_realpow)
  have "(2::real) powr (of_int (int n) + 1) = 2 ^ Suc n"
    by (simp add: powr_add powr_realpow)
  then show "\<bar>x\<bar> < 2 powr (of_int (int n) + 1)" using assms(2) by simp
qed (rule assms(3))

lemma exponent_upper:
  assumes "x \<noteq> 0" "\<bar>x\<bar> < 2 powr of_int n" "emin \<le> n - 1"
  shows "exponent emin x \<le> n - 1"
proof -
  have pos: "0 < \<bar>x\<bar>" using assms(1) by simp
  have "log 2 \<bar>x\<bar> < of_int n"
    using assms(2) pos by (simp add: log_less_iff)
  then have "\<lfloor>log 2 \<bar>x\<bar>\<rfloor> \<le> n - 1" by linarith
  then show ?thesis using assms(3) by (simp add: exponent_def)
qed

text \<open>
  An integer multiple of a power of 2 whose significand has at most \<open>p\<close> bits is a value of
  the format, and is rounded to itself.
\<close>

lemma round_to_format_value:
  assumes x: "x = of_int m * 2 powr of_int e"
    and m: "\<bar>m\<bar> < 2 ^ p" and e: "emin - int p + 1 \<le> e"
    and p: "0 < p" and nz: "x \<noteq> 0"
  shows "of_int (round_half_even (x / 2 powr (of_int (exponent emin x) - (of_nat p - 1)))) *
           2 powr (of_int (exponent emin x) - (of_nat p - 1)) = x"
proof -
  define E where "E = exponent emin x"
  have "\<bar>x\<bar> = of_int \<bar>m\<bar> * 2 powr of_int e"
    by (simp add: x abs_mult)
  also have "\<dots> < 2 ^ p * 2 powr of_int e"
  proof -
    have "(of_int \<bar>m\<bar> :: real) < of_int (2 ^ p)" using m by (simp only: of_int_less_iff)
    then have "(of_int \<bar>m\<bar> :: real) < 2 ^ p" by simp
    then show ?thesis by (intro mult_strict_right_mono) simp_all
  qed
  also have "\<dots> = 2 powr of_int (int p + e)"
    by (simp add: powr_add powr_realpow)
  finally have "\<bar>x\<bar> < 2 powr of_int (int p + e)" .
  from exponent_upper [OF nz this, of emin] e
  have E: "E - (int p - 1) \<le> e" by (simp add: E_def)
  define d where "d = nat (e - (E - (int p - 1)))"
  have de: "e = (E - (int p - 1)) + int d" using E by (simp add: d_def)
  define ulp :: real where "ulp = 2 powr (of_int E - (of_nat p - 1))"
  have ulp: "ulp = 2 powr of_int (E - (int p - 1))" using p by (simp add: ulp_def)
  have u: "2 powr of_int e = ulp * 2 ^ d"
    unfolding ulp by (subst de) (simp add: powr_add powr_realpow)
  then have xd: "x / ulp = of_int (m * 2 ^ d)"
    by (simp add: x ulp)
  have "of_int (round_half_even (x / ulp)) * ulp = x"
    unfolding xd round_half_even_of_int using u by (simp add: x)
  then show ?thesis by (simp add: ulp_def E_def)
qed

lemma round_to_format_representable:
  assumes x: "x = of_int m * 2 powr of_int e"
    and m: "\<bar>m\<bar> < 2 ^ p" and e: "emin - int p + 1 \<le> e" and p: "0 < p"
  shows "round_to_format p emin emax x =
           (if 2 powr (of_int emax + 1) \<le> \<bar>x\<bar>
            then (if 0 < x then PosInfinity else NegInfinity) else Num x)"
proof (cases "x = 0")
  case True
  then show ?thesis by (simp add: round_to_format_def)
next
  case False
  from round_to_format_value [OF x m e p False] False show ?thesis
    by (simp add: round_to_format_def Let_def)
qed

lemma float64_of_int:
  assumes "\<bar>m\<bar> \<le> 2 ^ 53"
  shows "float64 (of_int m) = Num (of_int m)"
proof -
  have "(of_int \<bar>m\<bar> :: real) \<le> of_int (2 ^ 53)" using assms by (simp only: of_int_le_iff)
  then have b: "\<bar>of_int m :: real\<bar> \<le> 2 ^ 53" by simp
  have fin: "\<not> 2 powr (of_int 1023 + 1) \<le> \<bar>of_int m :: real\<bar>"
    using b powr_realpow [of "2::real" 1024] by simp
  show ?thesis
  proof (cases "\<bar>m\<bar> = 2 ^ 53")
    case True
    then have "m = 2 ^ 53 \<or> m = - (2 ^ 53)" by linarith
    then have x: "(of_int m :: real) = of_int (if 0 < m then 1 else - 1) * 2 powr of_int 53"
      by auto
    have "round_to_format 53 (- 1022) 1023 (of_int m) = Num (of_int m)"
      using round_to_format_representable [OF x, of 53 "- 1022" 1023] fin by (auto simp: abs_if)
    then show ?thesis by (simp add: float64_def)
  next
    case False
    with assms have lt: "\<bar>m\<bar> < 2 ^ 53" by simp
    have x: "(of_int m :: real) = of_int m * 2 powr of_int 0" by simp
    have "round_to_format 53 (- 1022) 1023 (of_int m) = Num (of_int m)"
      using round_to_format_representable [OF x lt, of "- 1022" 1023] fin by simp
    then show ?thesis by (simp add: float64_def)
  qed
qed

lemma float64_numeral:
  "numeral n \<le> (2 :: int) ^ 53 \<Longrightarrow> float64 (numeral n) = Num (numeral n)"
  "float64 0 = Num 0" "float64 1 = Num 1"
  using float64_of_int [of "numeral n"] float64_of_int [of 0] float64_of_int [of 1]
  by simp_all

text \<open>The value to which a real rounds, given its exponent and the nearest multiple.\<close>

lemma round_to_format_eval:
  assumes "x \<noteq> 0" "exponent emin x = int E" "int E - (int p - 1) = int u"
    and "round_half_even (x / 2 ^ u) = n" "\<bar>of_int n * 2 ^ u\<bar> < (2::real) ^ nat (emax + 1)" "0 \<le> emax + 1"
    and "y = of_int n * 2 ^ u"
  shows "round_to_format p emin emax x = Num y"
proof -
  have "real E - (real p - 1) = real u"
    using assms(3) by linarith
  then have u: "(2::real) powr (real E - (real p - 1)) = 2 ^ u"
    by (simp add: powr_realpow)
  have m: "(2::real) powr (of_int emax + 1) = 2 ^ nat (emax + 1)"
    using assms(6) powr_realpow [of "2::real" "nat (emax + 1)"] by (simp add: add.commute)
  show ?thesis
    using assms(1,4,5,7) by (simp add: round_to_format_def Let_def assms(2) u m)
qed

text \<open>
  Sums of integers of magnitude up to \<open>2\<close> to the power 53 are exact; beyond, they are not:
  adding 100 or 50 to \<open>2 ^ 53 * 1000\<close> gives \<open>2 ^ 53 * 1000\<close> again.
\<close>

lemma num_add_int:
  assumes "\<bar>a + b\<bar> \<le> 2 ^ 53"
  shows "num_add (Num (of_int a)) (Num (of_int b)) = Num (of_int (a + b))"
  using float64_of_int [OF assms] by simp

lemma num_add_large_100: "num_add (Num (2 ^ 53 * 1000)) (Num 100) = Num (2 ^ 53 * 1000)"
proof -
  have e: "exponent (- 1022) (2 ^ 53 * 1000 + 100) = int 62"
    by (rule exponent_eq_nat) simp_all
  have r: "round_half_even ((2 ^ 53 * 1000 + 100) / 2 ^ 10) = 2 ^ 43 * 1000"
    by (simp add: round_half_even_def)
  have "round_to_format 53 (- 1022) 1023 (2 ^ 53 * 1000 + 100) = Num (2 ^ 53 * 1000)"
    by (rule round_to_format_eval [OF _ e _ r]) simp_all
  then show ?thesis by (simp only: num_add.simps float64_def)
qed

lemma num_add_large_50: "num_add (Num (2 ^ 53 * 1000)) (Num 50) = Num (2 ^ 53 * 1000)"
proof -
  have e: "exponent (- 1022) (2 ^ 53 * 1000 + 50) = int 62"
    by (rule exponent_eq_nat) simp_all
  have r: "round_half_even ((2 ^ 53 * 1000 + 50) / 2 ^ 10) = 2 ^ 43 * 1000"
    by (simp add: round_half_even_def)
  have "round_to_format 53 (- 1022) 1023 (2 ^ 53 * 1000 + 50) = Num (2 ^ 53 * 1000)"
    by (rule round_to_format_eval [OF _ e _ r]) simp_all
  then show ?thesis by (simp only: num_add.simps float64_def)
qed

lemma float64_large: "float64 (2 ^ 53 * 1000) = Num (2 ^ 53 * 1000)"
proof -
  have x: "(2 ^ 53 * 1000 :: real) = of_int 125 * 2 powr of_int 56"
    using powr_realpow [of "2::real" 56] by simp
  have fin: "\<not> 2 powr (of_int 1023 + 1) \<le> \<bar>2 ^ 53 * 1000 :: real\<bar>"
    using powr_realpow [of "2::real" 1024] by simp
  have "round_to_format 53 (- 1022) 1023 (2 ^ 53 * 1000) = Num (2 ^ 53 * 1000)"
    using round_to_format_representable [OF x, of 53 "- 1022" 1023] fin by simp
  then show ?thesis by (simp add: float64_def)
qed

section \<open>Mesh layer: the fallback state machine\<close>

lemma requestChunk_fields:
  "chunks (requestChunk c t p s) = chunks s"
  "allocated (requestChunk c t p s) = allocated s"
  "outstanding (requestChunk c t p s) = outstanding s"
  "chunkedGraph (requestChunk c t p s) = chunkedGraph s"
  "layerClipBounds (requestChunk c t p s) = layerClipBounds s"
  by (simp_all add: requestChunk_def)

lemma request_fragments_fields:
  "chunks (request_fragments m t b ids s) = chunks s \<and>
   allocated (request_fragments m t b ids s) = allocated s \<and>
   outstanding (request_fragments m t b ids s) = outstanding s \<and>
   chunkedGraph (request_fragments m t b ids s) = chunkedGraph s \<and>
   layerClipBounds (request_fragments m t b ids s) = layerClipBounds s"
  unfolding request_fragments_def
  by (induction ids arbitrary: s)
     (simp_all add: requestChunk_fields getFragmentChunk_def Let_def split: prod.splits)

lemma set_state_fields:
  "outstanding (set_state obj k st s) = outstanding s"
  "allocated (set_state obj k st s) = allocated s"
  "chunkedGraph (set_state obj k st s) = chunkedGraph s"
  "layerClipBounds (set_state obj k st s) = layerClipBounds s"
  by (simp_all add: set_state_def split: option.splits)

lemma set_state_chunks:
  "chunks (set_state obj k st s) =
     (case chunks s k of
        None \<Rightarrow> chunks s
      | Some c \<Rightarrow> if identity c = obj then (chunks s)(k \<mapsto> c\<lparr>state := st\<rparr>) else chunks s)"
  by (simp add: set_state_def split: option.splits)

lemma fallback_invI:
  assumes "\<And>k c. chunks s k = Some c \<Longrightarrow> identity c < allocated s"
    and "\<And>k k' c c'. chunks s k = Some c \<Longrightarrow> chunks s k' = Some c' \<Longrightarrow>
               identity c = identity c' \<Longrightarrow> k = k'"
    and "distinct (map manifest (outstanding s))"
    and "\<And>q. q \<in> set (outstanding s) \<Longrightarrow> manifest q < allocated s"
    and "\<And>q k c. q \<in> set (outstanding s) \<Longrightarrow> chunks s k = Some c \<Longrightarrow>
               identity c = manifest q \<Longrightarrow> k = manifestKey q \<and> state c = REQUESTING_CHILDREN"
  shows "fallback_inv s"
  unfolding fallback_inv_def distinct_objects_def
  using assms(1,2,4,5) assms(3) by blast

lemma fallback_invD:
  assumes "fallback_inv s"
  shows "\<And>k c. chunks s k = Some c \<Longrightarrow> identity c < allocated s"
    and "\<And>k k' c c'. chunks s k = Some c \<Longrightarrow> chunks s k' = Some c' \<Longrightarrow>
               identity c = identity c' \<Longrightarrow> k = k'"
    and "distinct (map manifest (outstanding s))"
    and "\<And>q. q \<in> set (outstanding s) \<Longrightarrow> manifest q < allocated s"
    and "\<And>q k c. q \<in> set (outstanding s) \<Longrightarrow> chunks s k = Some c \<Longrightarrow>
               identity c = manifest q \<Longrightarrow> k = manifestKey q \<and> state c = REQUESTING_CHILDREN"
  using assms unfolding fallback_inv_def distinct_objects_def by blast+

lemma fallback_inv_cong:
  "chunks s' = chunks s \<Longrightarrow> outstanding s' = outstanding s \<Longrightarrow> allocated s' = allocated s \<Longrightarrow>
   fallback_inv s' = fallback_inv s"
  by (simp add: fallback_inv_def distinct_objects_def)

lemma held_inv_cong:
  "chunks s' = chunks s \<Longrightarrow> outstanding s' = outstanding s \<Longrightarrow> held_inv s' = held_inv s"
  by (simp add: held_inv_def)

lemma getChunk_cases:
  assumes "getChunk oid bounds s = (c, s1)"
  shows "outstanding s1 = outstanding s" "chunkedGraph s1 = chunkedGraph s"
    "layerClipBounds s1 = layerClipBounds s" "requested s1 = requested s"
    "chunks s1 (getObjectKey oid bounds) = Some c"
    "chunks s (getObjectKey oid bounds) = Some c0 \<Longrightarrow> c = c0 \<and> s1 = s"
    "chunks s (getObjectKey oid bounds) = None \<Longrightarrow>
       c = initializeManifestChunk (allocated s) (getObjectKey oid bounds) oid bounds \<and>
       chunks s1 = (chunks s)(getObjectKey oid bounds \<mapsto> c) \<and> allocated s1 = Suc (allocated s)"
  using assms
  by (auto simp: getChunk_def Let_def split: option.splits)

text \<open>
  A visit either creates the manifest chunk, or finds it \<open>FAILED\<close> with a graph client
  and queries the graph, or finds it and leaves its state.
\<close>

lemma visit_cases:
  assumes v: "visit tier base (oid, r) s = (e, s')"
    and k: "k = getObjectKey oid (layerClipBounds s)"
  obtains (created) "chunks s k = None"
      "chunks s' = (chunks s)(k \<mapsto> initializeManifestChunk (allocated s) k oid (layerClipBounds s))"
      "allocated s' = Suc (allocated s)" "outstanding s' = outstanding s"
    | (queried) c where "chunks s k = Some c" "state c = FAILED" "chunkedGraph s"
      "chunks s' = (chunks s)(k \<mapsto> c\<lparr>state := REQUESTING_CHILDREN\<rparr>)"
      "allocated s' = allocated s"
      "outstanding s' = outstanding s @
         [\<lparr>manifest = identity c, manifestKey = k, queried = oid, segmentID = oid, rootID = r\<rparr>]"
    | (left) c where "chunks s k = Some c" "\<not> (state c = FAILED \<and> chunkedGraph s)"
      "chunks s' = chunks s" "allocated s' = allocated s" "outstanding s' = outstanding s"
proof -
  obtain c s1 where g: "getChunk oid (layerClipBounds s) s = (c, s1)"
    by (cases "getChunk oid (layerClipBounds s) s")
  note gc = getChunk_cases [OF g, folded k]
  define s2 where "s2 = requestChunk (Manifest k) tier (num_add base MESH_OBJECT_MANIFEST_CHUNK_PRIORITY) s1"
  have s2: "chunks s2 = chunks s1" "allocated s2 = allocated s1" "outstanding s2 = outstanding s"
    "chunkedGraph s2 = chunkedGraph s"
    by (simp_all add: s2_def requestChunk_fields gc)
  have q: "s' = (set_state (identity c) k REQUESTING_CHILDREN s2)
              \<lparr>outstanding := outstanding (set_state (identity c) k REQUESTING_CHILDREN s2) @
                 [\<lparr>manifest = identity c, manifestKey = k, queried = oid, segmentID = oid, rootID = r\<rparr>],
               getChildrenCalls := getChildrenCalls (set_state (identity c) k REQUESTING_CHILDREN s2) @ [oid]\<rparr>"
    if "state c = FAILED" "chunkedGraph s"
    using v g s2(4) that
    by (simp add: visit_def Let_def k [symmetric] s2_def [symmetric])
  have nq: "chunks s' = chunks s1 \<and> allocated s' = allocated s1 \<and> outstanding s' = outstanding s"
    if n: "\<not> (state c = FAILED \<and> chunkedGraph s)"
  proof -
    have "s' = s2 \<or> (\<exists>ids. s' = request_fragments c tier base ids s2)"
      using v g s2(4) n
      by (auto simp: visit_def Let_def k [symmetric] s2_def [symmetric] split: option.splits if_splits)
    then show ?thesis using s2 by (auto simp: request_fragments_fields)
  qed
  show ?thesis
  proof (cases "chunks s k")
    case None
    note n = gc(7) [OF None]
    then have "state c = QUEUED" by (simp add: initializeManifestChunk_def)
    then have "\<not> (state c = FAILED \<and> chunkedGraph s)" by simp
    from nq [OF this] n None show ?thesis by (intro created) simp_all
  next
    case (Some c0)
    with gc(6) have c: "c = c0" "s1 = s" by simp_all
    show ?thesis
    proof (cases "state c = FAILED \<and> chunkedGraph s")
      case True
      have "chunks (set_state (identity c) k REQUESTING_CHILDREN s2) =
              (chunks s)(k \<mapsto> c\<lparr>state := REQUESTING_CHILDREN\<rparr>)"
        using Some c by (simp add: set_state_chunks s2)
      with q True Some c show ?thesis
        by (intro queried [of c]) (simp_all add: set_state_fields s2)
    next
      case False
      from nq [OF False] Some c False show ?thesis by (intro left [of c]) simp_all
    qed
  qed
qed

lemma visit_inv:
  assumes inv: "fallback_inv s" and v: "visit tier base seg s = (e, s')"
  shows "fallback_inv s'"
proof -
  obtain oid r where seg: "seg = (oid, r)" by (cases seg)
  define k where "k = getObjectKey oid (layerClipBounds s)"
  note lt = fallback_invD(1) [OF inv] and un = fallback_invD(2) [OF inv]
    and d = fallback_invD(3) [OF inv] and ql = fallback_invD(4) [OF inv]
    and rc = fallback_invD(5) [OF inv]
  from v [unfolded seg] k_def show ?thesis
  proof (cases rule: visit_cases)
    case created
    define c0 where "c0 = initializeManifestChunk (allocated s) k oid (layerClipBounds s)"
    have i0: "identity c0 = allocated s" by (simp add: c0_def initializeManifestChunk_def)
    have at: "c' = c0" if "chunks s' k = Some c'" for c'
      using that by (simp add: created(2) c0_def)
    have off: "chunks s k' = Some c'" if "chunks s' k' = Some c'" "k' \<noteq> k" for k' c'
      using that by (simp add: created(2))
    show ?thesis
    proof (rule fallback_invI)
      show "distinct (map manifest (outstanding s'))" using d by (simp add: created(4))
      show "identity c' < allocated s'" if "chunks s' k' = Some c'" for k' c'
      proof (cases "k' = k")
        case True
        with that at i0 show ?thesis by (simp add: created(3))
      next
        case False
        from lt [OF off [OF that False]] show ?thesis by (simp add: created(3))
      qed
      show "k1 = k2" if "chunks s' k1 = Some c1" "chunks s' k2 = Some c2" "identity c1 = identity c2"
        for k1 k2 c1 c2
      proof (cases "k1 = k")
        case k1: True
        show ?thesis
        proof (cases "k2 = k")
          case True
          with k1 show ?thesis by simp
        next
          case False
          from lt [OF off [OF that(2) False]] at [of c1] that(1,3) k1 i0 show ?thesis by simp
        qed
      next
        case k1: False
        show ?thesis
        proof (cases "k2 = k")
          case True
          from lt [OF off [OF that(1) k1]] at [of c2] that(2,3) True i0 show ?thesis by simp
        next
          case False
          from un [OF off [OF that(1) k1] off [OF that(2) False] that(3)] show ?thesis .
        qed
      qed
      show "manifest q < allocated s'" if "q \<in> set (outstanding s')" for q
        using that ql [of q] by (simp add: created(3,4))
      show "k' = manifestKey q \<and> state c' = REQUESTING_CHILDREN"
        if "q \<in> set (outstanding s')" "chunks s' k' = Some c'" "identity c' = manifest q" for q k' c'
      proof (cases "k' = k")
        case True
        with that(2) at have "identity c' = allocated s" by (simp add: i0)
        with that(1,3) ql [of q] show ?thesis by (simp add: created(4))
      next
        case False
        from that(1) rc [OF _ off [OF that(2) False] that(3)] show ?thesis by (simp add: created(4))
      qed
    qed
  next
    case (queried c)
    define c1 where "c1 = c\<lparr>state := REQUESTING_CHILDREN\<rparr>"
    define qn where "qn = \<lparr>manifest = identity c, manifestKey = k, queried = oid, segmentID = oid, rootID = r\<rparr>"
    have i1: "identity c1 = identity c" "state c1 = REQUESTING_CHILDREN" by (simp_all add: c1_def)
    have mq: "manifest qn = identity c" "manifestKey qn = k" by (simp_all add: qn_def)
    have at: "c' = c1" if "chunks s' k = Some c'" for c'
      using that by (simp add: queried(4) c1_def)
    have off: "chunks s k' = Some c'" if "chunks s' k' = Some c'" "k' \<noteq> k" for k' c'
      using that by (simp add: queried(4))
    have before: "\<exists>c0. chunks s k' = Some c0 \<and> identity c0 = identity c'"
      if "chunks s' k' = Some c'" for k' c'
    proof (cases "k' = k")
      case True
      with that at queried(1) i1 show ?thesis by auto
    next
      case False
      from off [OF that False] show ?thesis by blast
    qed
    have os: "set (outstanding s') = insert qn (set (outstanding s))"
      by (simp add: queried(6) qn_def)
    have new: "manifest q \<noteq> identity c" if "q \<in> set (outstanding s)" for q
      using rc [OF that queried(1)] queried(2) by auto
    show ?thesis
    proof (rule fallback_invI)
      have "identity c \<notin> manifest ` set (outstanding s)"
      proof
        assume "identity c \<in> manifest ` set (outstanding s)"
        then obtain q where "q \<in> set (outstanding s)" "manifest q = identity c" by force
        with new [of q] show False by simp
      qed
      then show "distinct (map manifest (outstanding s'))"
        using d by (simp add: queried(6))
      show "identity c' < allocated s'" if "chunks s' k' = Some c'" for k' c'
      proof -
        from before [OF that] obtain c0 where "chunks s k' = Some c0" "identity c0 = identity c'"
          by blast
        with lt [of k' c0] show ?thesis by (simp add: queried(5))
      qed
      show "k1 = k2" if "chunks s' k1 = Some c1'" "chunks s' k2 = Some c2" "identity c1' = identity c2"
        for k1 k2 c1' c2
      proof -
        from before [OF that(1)] obtain d1 where d1: "chunks s k1 = Some d1" "identity d1 = identity c1'"
          by blast
        from before [OF that(2)] obtain d2 where d2: "chunks s k2 = Some d2" "identity d2 = identity c2"
          by blast
        from un [OF d1(1) d2(1)] d1(2) d2(2) that(3) show ?thesis by simp
      qed
      show "manifest q < allocated s'" if "q \<in> set (outstanding s')" for q
      proof (cases "q = qn")
        case True
        with lt [OF queried(1)] show ?thesis by (simp add: mq queried(5))
      next
        case False
        with that os have "q \<in> set (outstanding s)" by simp
        from ql [OF this] show ?thesis by (simp add: queried(5))
      qed
      show "k' = manifestKey q \<and> state c' = REQUESTING_CHILDREN"
        if "q \<in> set (outstanding s')" "chunks s' k' = Some c'" "identity c' = manifest q" for q k' c'
      proof (cases "q = qn")
        case True
        show ?thesis
        proof (cases "k' = k")
          case True
          with that(2) have "c' = c1" by (simp add: at)
          with True \<open>q = qn\<close> show ?thesis by (simp add: mq i1)
        next
          case False
          from un [OF off [OF that(2) False] queried(1)] that(3) True False show ?thesis
            by (simp add: mq)
        qed
      next
        case False
        with that(1) os have q: "q \<in> set (outstanding s)" by simp
        show ?thesis
        proof (cases "k' = k")
          case True
          with that(2) have "c' = c1" by (simp add: at)
          with that(3) new [OF q] show ?thesis by (simp add: i1)
        next
          case False
          from rc [OF q off [OF that(2) False] that(3)] show ?thesis .
        qed
      qed
    qed
  next
    case (left c)
    then show ?thesis using inv fallback_inv_cong [of s' s] by simp
  qed
qed

lemma visit_held:
  assumes inv: "held_inv s" and v: "visit tier base seg s = (e, s')"
  shows "held_inv s'"
proof -
  obtain oid r where seg: "seg = (oid, r)" by (cases seg)
  define k where "k = getObjectKey oid (layerClipBounds s)"
  from inv have h: "\<And>q. q \<in> set (outstanding s) \<Longrightarrow>
      \<exists>c. chunks s (manifestKey q) = Some c \<and> identity c = manifest q"
    unfolding held_inv_def by blast
  from v [unfolded seg] k_def show ?thesis
  proof (cases rule: visit_cases)
    case created
    have "\<exists>c. chunks s' (manifestKey q) = Some c \<and> identity c = manifest q"
      if "q \<in> set (outstanding s)" for q
      using h [OF that] created(1) by (auto simp: created(2))
    then show ?thesis by (simp add: held_inv_def created(4))
  next
    case (queried c)
    have "\<exists>c'. chunks s' (manifestKey q) = Some c' \<and> identity c' = manifest q"
      if "q \<in> set (outstanding s')" for q
    proof (cases "q \<in> set (outstanding s)")
      case True
      from h [OF this] queried(1) show ?thesis by (auto simp: queried(4))
    next
      case False
      with that have "q = \<lparr>manifest = identity c, manifestKey = k, queried = oid, segmentID = oid, rootID = r\<rparr>"
        by (simp add: queried(6))
      then show ?thesis by (simp add: queried(4))
    qed
    then show ?thesis by (simp add: held_inv_def)
  next
    case (left c)
    then show ?thesis using inv held_inv_cong [of s' s] by simp
  qed
qed

lemma forEach_inv:
  assumes "\<And>seg s e s'. P s \<Longrightarrow> visit tier base seg s = (e, s') \<Longrightarrow> P s'"
  shows "P s \<Longrightarrow> forEachVisibleSegment3D (visit tier base) segs s = (e, s') \<Longrightarrow> P s'"
proof (induction segs arbitrary: s)
  case Nil
  then show ?case by simp
next
  case (Cons seg segs)
  obtain e1 s1 where v: "visit tier base seg s = (e1, s1)" by (cases "visit tier base seg s")
  note i1 = assms [OF Cons.prems(1) v]
  show ?case
  proof (cases e1)
    case None
    with Cons.prems(2) v have "forEachVisibleSegment3D (visit tier base) segs s1 = (e, s')" by simp
    from Cons.IH [OF i1 this] show ?thesis .
  next
    case (Some err)
    with Cons.prems(2) v have "s' = s1" by simp
    with i1 show ?thesis by simp
  qed
qed

lemma updateChunkPriorities_inv:
  assumes "\<And>tier base seg s e s'. P s \<Longrightarrow> visit tier base seg s = (e, s') \<Longrightarrow> P s'"
    and "P s"
  shows "P (snd (updateChunkPriorities gt gb segs s))"
proof (cases "layerVisibility s = NEGATIVE_INFINITY")
  case True
  with assms(2) show ?thesis by (simp add: updateChunkPriorities_def)
next
  case False
  obtain e s' where f: "forEachVisibleSegment3D
      (visit (gt (layerVisibility s)) (gb (layerVisibility s))) segs s = (e, s')"
    by (cases "forEachVisibleSegment3D (visit (gt (layerVisibility s)) (gb (layerVisibility s))) segs s")
  have "P s'"
    by (rule forEach_inv [where P = P, OF _ assms(2) f]) (rule assms(1))
  with False f show ?thesis by (simp add: updateChunkPriorities_def Let_def)
qed

lemma add_child_fields:
  "chunks (add_child r e s) = chunks s" "outstanding (add_child r e s) = outstanding s"
  "rootSegments (add_child r e s) = rootSegments s" "allocated (add_child r e s) = allocated s"
  by (simp_all add: add_child_def)

lemma delete_segment_fields:
  "chunks (delete_segment e s) = chunks s" "outstanding (delete_segment e s) = outstanding s"
  "rootSegments (delete_segment e s) = rootSegments s" "allocated (delete_segment e s) = allocated s"
  by (simp_all add: delete_segment_def)

lemma fold_add_child_fields:
  "chunks (fold (add_child r) es s) = chunks s \<and> outstanding (fold (add_child r) es s) = outstanding s
   \<and> rootSegments (fold (add_child r) es s) = rootSegments s
   \<and> allocated (fold (add_child r) es s) = allocated s"
  by (induction es arbitrary: s) (simp_all add: add_child_fields)

lemma fold_delete_segment_fields:
  "chunks (fold delete_segment es s) = chunks s \<and> outstanding (fold delete_segment es s) = outstanding s
   \<and> rootSegments (fold delete_segment es s) = rootSegments s
   \<and> allocated (fold delete_segment es s) = allocated s"
  by (induction es arbitrary: s) (simp_all add: delete_segment_fields)

lemma handle_entry_fields:
  "chunks (handle_entry en s) = chunks s \<and> outstanding (handle_entry en s) = outstanding s
   \<and> rootSegments (handle_entry en s) = rootSegments s
   \<and> allocated (handle_entry en s) = allocated s"
  by (cases en) (simp add: handle_entry_def fold_add_child_fields fold_delete_segment_fields)

lemma fold_handle_entry_fields:
  "chunks (fold handle_entry m s) = chunks s \<and> outstanding (fold handle_entry m s) = outstanding s
   \<and> rootSegments (fold handle_entry m s) = rootSegments s
   \<and> allocated (fold handle_entry m s) = allocated s"
  by (induction m arbitrary: s) (simp_all add: handle_entry_fields)

lemma handleChildChunks_fields:
  "chunks (handleChildChunks s) = chunks s" "outstanding (handleChildChunks s) = outstanding s"
  "rootSegments (handleChildChunks s) = rootSegments s"
  "allocated (handleChildChunks s) = allocated s"
  by (simp_all add: handleChildChunks_def fold_handle_entry_fields)

lemma advance_fields:
  "chunks (advance t s) = chunks s" "outstanding (advance t s) = outstanding s"
  "allocated (advance t s) = allocated s"
  by (simp_all add: advance_def handleChildChunks_fields split: option.splits)

lemma children_received_fields:
  "outstanding (children_received q ch s) = outstanding s"
  "allocated (children_received q ch s) = allocated s"
  "chunks (children_received q ch s) = chunks (set_state (manifest q) (manifestKey q) FAILED s)"
  by (simp_all add: children_received_def Let_def debouncedHandleChildChunks_def set_state_fields)

lemma distinct_map_remove1:
  assumes "distinct (map f xs)"
  shows "distinct (map f (remove1 x xs))"
    and "x \<in> set xs \<Longrightarrow> y \<in> set (remove1 x xs) \<Longrightarrow> f y \<noteq> f x"
proof -
  from assms have d: "distinct xs" and i: "inj_on f (set xs)" by (simp_all add: distinct_map)
  have sub: "set (remove1 x xs) \<subseteq> set xs" by (rule set_remove1_subset)
  show "distinct (map f (remove1 x xs))"
    using d i sub by (auto simp: distinct_map intro: inj_on_subset)
  assume "x \<in> set xs" "y \<in> set (remove1 x xs)"
  then have "y \<in> set xs" "y \<noteq> x" using d by auto
  with i \<open>x \<in> set xs\<close> show "f y \<noteq> f x" by (auto dest: inj_onD)
qed

text \<open>
  The chunks after the continuation has assigned \<open>FAILED\<close> to the chunk object it holds:
  the object's state changes where the source still holds it, and nothing else does.
\<close>

lemma set_state_lookup:
  "chunks (set_state obj k st s) k' = Some c' \<longleftrightarrow>
     (\<exists>c. chunks s k' = Some c \<and>
          c' = (if k' = k \<and> identity c = obj then c\<lparr>state := st\<rparr> else c))"
  by (auto simp: set_state_chunks split: option.splits)

lemma resolved_inv:
  assumes inv: "fallback_inv s" and q: "q \<in> set (outstanding s)"
  shows "fallback_inv (children_received q ch (s\<lparr>outstanding := remove1 q (outstanding s)\<rparr>))"
proof -
  define s0 where "s0 = s\<lparr>outstanding := remove1 q (outstanding s)\<rparr>"
  define s' where "s' = children_received q ch s0"
  note lt = fallback_invD(1) [OF inv] and un = fallback_invD(2) [OF inv]
    and d = fallback_invD(3) [OF inv] and ql = fallback_invD(4) [OF inv]
    and rc = fallback_invD(5) [OF inv]
  note r = distinct_map_remove1 [OF d, of q]
  have o: "outstanding s' = remove1 q (outstanding s)" and al: "allocated s' = allocated s"
    by (simp_all add: s'_def s0_def children_received_fields)
  have ch: "chunks s' k' = Some c' \<longleftrightarrow>
     (\<exists>c. chunks s k' = Some c \<and>
          c' = (if k' = manifestKey q \<and> identity c = manifest q then c\<lparr>state := FAILED\<rparr> else c))"
    for k' c'
    unfolding s'_def children_received_fields set_state_lookup by (simp add: s0_def)
  have sub: "y \<in> set (outstanding s)" if "y \<in> set (remove1 q (outstanding s))" for y
    using that by (rule set_remove1_subset [THEN subsetD])
  have a: "identity c' < allocated s'" if "chunks s' k' = Some c'" for k' c'
    using that lt [of k'] by (auto simp: ch al split: if_splits)
  have b: "k1 = k2" if "chunks s' k1 = Some c1" "chunks s' k2 = Some c2" "identity c1 = identity c2"
    for k1 k2 c1 c2
  proof -
    from that(1) obtain d1 where d1: "chunks s k1 = Some d1" "identity d1 = identity c1"
      by (auto simp: ch split: if_splits)
    from that(2) obtain d2 where d2: "chunks s k2 = Some d2" "identity d2 = identity c2"
      by (auto simp: ch split: if_splits)
    from un [OF d1(1) d2(1)] d1(2) d2(2) that(3) show ?thesis by simp
  qed
  have c: "k' = manifestKey y \<and> state c' = REQUESTING_CHILDREN"
    if "y \<in> set (outstanding s')" "chunks s' k' = Some c'" "identity c' = manifest y" for y k' c'
  proof -
    from that(1) have y: "y \<in> set (remove1 q (outstanding s))" by (simp add: o)
    have ne: "manifest y \<noteq> manifest q" using r(2) [OF q y] .
    from that(2) obtain c0 where c0: "chunks s k' = Some c0"
      "c' = (if k' = manifestKey q \<and> identity c0 = manifest q then c0\<lparr>state := FAILED\<rparr> else c0)"
      by (auto simp: ch)
    then have "identity c0 = manifest y" using that(3) by (auto split: if_splits)
    with ne c0(2) have "c' = c0" by simp
    with rc [OF sub [OF y] c0(1)] \<open>identity c0 = manifest y\<close> show ?thesis by simp
  qed
  have e: "manifest y < allocated s'" if "y \<in> set (outstanding s')" for y
    using that ql [of y] sub [of y] by (simp add: o al)
  have "fallback_inv s'"
  proof (rule fallback_invI)
    show "distinct (map manifest (outstanding s'))" using r(1) by (simp add: o)
  qed (use a b c e in blast)+
  then show ?thesis by (simp add: s'_def s0_def)
qed

lemma resolved_held:
  assumes inv: "held_inv s"
  shows "held_inv (children_received q ch (s\<lparr>outstanding := remove1 q (outstanding s)\<rparr>))"
proof -
  define s' where "s' = children_received q ch (s\<lparr>outstanding := remove1 q (outstanding s)\<rparr>)"
  have o: "outstanding s' = remove1 q (outstanding s)"
    by (simp add: s'_def children_received_fields)
  have ch: "chunks s' k' = Some c' \<longleftrightarrow>
     (\<exists>c. chunks s k' = Some c \<and>
          c' = (if k' = manifestKey q \<and> identity c = manifest q then c\<lparr>state := FAILED\<rparr> else c))"
    for k' c'
    unfolding s'_def children_received_fields set_state_lookup by simp
  have "\<exists>c. chunks s' (manifestKey y) = Some c \<and> identity c = manifest y"
    if "y \<in> set (outstanding s')" for y
  proof -
    from that have "y \<in> set (outstanding s)"
      unfolding o by (rule set_remove1_subset [THEN subsetD])
    with inv obtain c where c: "chunks s (manifestKey y) = Some c" "identity c = manifest y"
      unfolding held_inv_def by blast
    define c' where "c' = (if manifestKey y = manifestKey q \<and> identity c = manifest q
                           then c\<lparr>state := FAILED\<rparr> else c)"
    have "chunks s' (manifestKey y) = Some c'" unfolding ch c'_def using c(1) by simp
    moreover have "identity c' = manifest y" using c(2) by (simp add: c'_def)
    ultimately show ?thesis by blast
  qed
  then show ?thesis by (simp add: held_inv_def s'_def)
qed

lemma rejected_inv:
  assumes inv: "fallback_inv s"
  shows "fallback_inv (s\<lparr>outstanding := remove1 q (outstanding s)\<rparr>)"
proof -
  have sub: "y \<in> set (outstanding s)" if "y \<in> set (remove1 q (outstanding s))" for y
    using that by (rule set_remove1_subset [THEN subsetD])
  show ?thesis
  proof (rule fallback_invI)
    show "distinct (map manifest (outstanding (s\<lparr>outstanding := remove1 q (outstanding s)\<rparr>)))"
      using distinct_map_remove1(1) [OF fallback_invD(3) [OF inv], of q] by simp
    show "identity c < allocated (s\<lparr>outstanding := remove1 q (outstanding s)\<rparr>)"
      if "chunks (s\<lparr>outstanding := remove1 q (outstanding s)\<rparr>) k = Some c" for k c
      using that fallback_invD(1) [OF inv, of k c] by simp
    show "k1 = k2" if "chunks (s\<lparr>outstanding := remove1 q (outstanding s)\<rparr>) k1 = Some c1"
      "chunks (s\<lparr>outstanding := remove1 q (outstanding s)\<rparr>) k2 = Some c2"
      "identity c1 = identity c2" for k1 k2 c1 c2
      using that fallback_invD(2) [OF inv, of k1 c1 k2 c2] by simp
    show "manifest y < allocated (s\<lparr>outstanding := remove1 q (outstanding s)\<rparr>)"
      if "y \<in> set (outstanding (s\<lparr>outstanding := remove1 q (outstanding s)\<rparr>))" for y
      using that sub [of y] fallback_invD(4) [OF inv, of y] by simp
    show "k = manifestKey y \<and> state c = REQUESTING_CHILDREN"
      if "y \<in> set (outstanding (s\<lparr>outstanding := remove1 q (outstanding s)\<rparr>))"
        "chunks (s\<lparr>outstanding := remove1 q (outstanding s)\<rparr>) k = Some c" "identity c = manifest y"
      for y k c
      using that sub [of y] fallback_invD(5) [OF inv, of y k c] by simp
  qed
qed

lemma rejected_held:
  assumes inv: "held_inv s"
  shows "held_inv (s\<lparr>outstanding := remove1 q (outstanding s)\<rparr>)"
proof -
  have "y \<in> set (outstanding s)" if "y \<in> set (remove1 q (outstanding s))" for y
    using that by (rule set_remove1_subset [THEN subsetD])
  then show ?thesis using inv unfolding held_inv_def by simp
qed

lemma chunk_manager_update_lookup:
  "chunks (chunk_manager_update k st ids s) k' = Some c' \<longleftrightarrow>
     (\<exists>c. chunks s k' = Some c \<and>
          c' = (if k' = k \<and> state c \<noteq> REQUESTING_CHILDREN \<and> st \<noteq> REQUESTING_CHILDREN
                then c\<lparr>state := st, fragmentIds := ids\<rparr> else c))"
  by (auto simp: chunk_manager_update_def split: option.splits)

lemma chunk_manager_update_fields:
  "outstanding (chunk_manager_update k st ids s) = outstanding s"
  "allocated (chunk_manager_update k st ids s) = allocated s"
  by (simp_all add: chunk_manager_update_def split: option.splits)

lemma chunk_manager_update_inv:
  assumes inv: "fallback_inv s"
  shows "fallback_inv (chunk_manager_update k st ids s)"
proof -
  define s' where "s' = chunk_manager_update k st ids s"
  note lt = fallback_invD(1) [OF inv] and un = fallback_invD(2) [OF inv]
    and d = fallback_invD(3) [OF inv] and ql = fallback_invD(4) [OF inv]
    and rc = fallback_invD(5) [OF inv]
  note f = chunk_manager_update_fields [of k st ids s, folded s'_def]
  note ch = chunk_manager_update_lookup [of k st ids s, folded s'_def]
  have a: "identity c' < allocated s'" if "chunks s' k' = Some c'" for k' c'
    using that lt [of k'] by (auto simp: ch f split: if_splits)
  have b: "k1 = k2" if "chunks s' k1 = Some c1" "chunks s' k2 = Some c2" "identity c1 = identity c2"
    for k1 k2 c1 c2
  proof -
    from that(1) obtain d1 where d1: "chunks s k1 = Some d1" "identity d1 = identity c1"
      by (auto simp: ch split: if_splits)
    from that(2) obtain d2 where d2: "chunks s k2 = Some d2" "identity d2 = identity c2"
      by (auto simp: ch split: if_splits)
    from un [OF d1(1) d2(1)] d1(2) d2(2) that(3) show ?thesis by simp
  qed
  have c: "k' = manifestKey y \<and> state c' = REQUESTING_CHILDREN"
    if "y \<in> set (outstanding s)" "chunks s' k' = Some c'" "identity c' = manifest y" for y k' c'
  proof -
    from that(2) obtain c0 where c0: "chunks s k' = Some c0"
      "c' = (if k' = k \<and> state c0 \<noteq> REQUESTING_CHILDREN \<and> st \<noteq> REQUESTING_CHILDREN
                then c0\<lparr>state := st, fragmentIds := ids\<rparr> else c0)"
      by (auto simp: ch)
    then have "identity c0 = manifest y" using that(3) by (auto split: if_splits)
    from rc [OF that(1) c0(1) this] c0(2) show ?thesis by simp
  qed
  have "fallback_inv s'"
  proof (rule fallback_invI)
    show "distinct (map manifest (outstanding s'))" using d by (simp add: f)
    show "manifest y < allocated s'" if "y \<in> set (outstanding s')" for y
      using that ql [of y] by (simp add: f)
    show "k' = manifestKey y \<and> state c' = REQUESTING_CHILDREN"
      if "y \<in> set (outstanding s')" "chunks s' k' = Some c'" "identity c' = manifest y" for y k' c'
      using that c [of y k' c'] by (simp add: f)
  qed (use a b in blast)+
  then show ?thesis by (simp add: s'_def)
qed

lemma chunk_manager_update_held:
  assumes inv: "held_inv s"
  shows "held_inv (chunk_manager_update k st ids s)"
proof -
  define s' where "s' = chunk_manager_update k st ids s"
  note f = chunk_manager_update_fields [of k st ids s, folded s'_def]
  note ch = chunk_manager_update_lookup [of k st ids s, folded s'_def]
  have "\<exists>c. chunks s' (manifestKey y) = Some c \<and> identity c = manifest y"
    if "y \<in> set (outstanding s)" for y
  proof -
    from that inv obtain c where c: "chunks s (manifestKey y) = Some c" "identity c = manifest y"
      unfolding held_inv_def by blast
    define c' where "c' = (if manifestKey y = k \<and> state c \<noteq> REQUESTING_CHILDREN \<and> st \<noteq> REQUESTING_CHILDREN
                then c\<lparr>state := st, fragmentIds := ids\<rparr> else c)"
    have "chunks s' (manifestKey y) = Some c'" unfolding ch c'_def using c(1) by simp
    moreover have "identity c' = manifest y" using c(2) by (simp add: c'_def)
    ultimately show ?thesis by blast
  qed
  then show ?thesis by (simp add: held_inv_def s'_def [symmetric] f)
qed

lemma evict_inv:
  assumes inv: "fallback_inv s"
  shows "fallback_inv (evict k s)"
proof -
  have ch: "chunks s k' = Some c" if "chunks (evict k s) k' = Some c" for k' c
    using that by (simp add: evict_def split: if_splits)
  have f: "outstanding (evict k s) = outstanding s" "allocated (evict k s) = allocated s"
    by (simp_all add: evict_def)
  show ?thesis
  proof (rule fallback_invI)
    show "distinct (map manifest (outstanding (evict k s)))"
      using fallback_invD(3) [OF inv] by (simp add: f)
    show "identity c < allocated (evict k s)" if "chunks (evict k s) k' = Some c" for k' c
      using fallback_invD(1) [OF inv ch [OF that]] by (simp add: f)
    show "k1 = k2" if "chunks (evict k s) k1 = Some c1" "chunks (evict k s) k2 = Some c2"
      "identity c1 = identity c2" for k1 k2 c1 c2
      using fallback_invD(2) [OF inv ch [OF that(1)] ch [OF that(2)] that(3)] .
    show "manifest q < allocated (evict k s)" if "q \<in> set (outstanding (evict k s))" for q
      using that fallback_invD(4) [OF inv, of q] by (simp add: f)
    show "k' = manifestKey q \<and> state c = REQUESTING_CHILDREN"
      if "q \<in> set (outstanding (evict k s))" "chunks (evict k s) k' = Some c" "identity c = manifest q"
      for q k' c
      using that(1) fallback_invD(5) [OF inv _ ch [OF that(2)] that(3)] by (simp add: f)
  qed
qed

lemma step_inv: "fallback_inv s \<Longrightarrow> fallback_inv (step gt gb ev s)"
proof (cases ev)
  case (RecomputeChunkPriorities segs)
  then show "fallback_inv s \<Longrightarrow> ?thesis"
    using updateChunkPriorities_inv [of fallback_inv s gt gb segs, OF visit_inv]
    by (simp add: step_def)
next
  case (ChildrenResolved q ch)
  then show "fallback_inv s \<Longrightarrow> ?thesis" by (simp add: step_def resolved_inv)
next
  case (ChildrenRejected q)
  then show "fallback_inv s \<Longrightarrow> ?thesis" by (simp add: step_def rejected_inv)
next
  case (Clock t)
  then show "fallback_inv s \<Longrightarrow> ?thesis"
    using fallback_inv_cong [of "advance t s" s] by (simp add: step_def advance_fields)
next
  case (ChunkManagerUpdate k st ids)
  then show "fallback_inv s \<Longrightarrow> ?thesis" by (simp add: step_def chunk_manager_update_inv)
next
  case (ChunkEvicted k)
  then show "fallback_inv s \<Longrightarrow> ?thesis" by (simp add: step_def evict_inv)
next
  case (DisplayUpdate roots visible v bounds)
  then show "fallback_inv s \<Longrightarrow> ?thesis"
    using fallback_inv_cong [of "s\<lparr>rootSegments := roots, visibleSegments3D := visible,
       layerVisibility := v, layerClipBounds := bounds\<rparr>" s]
    by (simp add: step_def)
qed

lemma step_held: "held_inv s \<Longrightarrow> \<not> eviction ev \<Longrightarrow> held_inv (step gt gb ev s)"
proof (cases ev)
  case (RecomputeChunkPriorities segs)
  then show "held_inv s \<Longrightarrow> ?thesis"
    using updateChunkPriorities_inv [of held_inv s gt gb segs, OF visit_held]
    by (simp add: step_def)
next
  case (ChildrenResolved q ch)
  then show "held_inv s \<Longrightarrow> ?thesis" by (simp add: step_def resolved_held)
next
  case (ChildrenRejected q)
  then show "held_inv s \<Longrightarrow> ?thesis" by (simp add: step_def rejected_held)
next
  case (Clock t)
  then show "held_inv s \<Longrightarrow> ?thesis"
    using held_inv_cong [of "advance t s" s] by (simp add: step_def advance_fields)
next
  case (ChunkManagerUpdate k st ids)
  then show "held_inv s \<Longrightarrow> ?thesis" by (simp add: step_def chunk_manager_update_held)
next
  case (ChunkEvicted k)
  then show "\<not> eviction ev \<Longrightarrow> ?thesis" by (simp add: eviction_def)
next
  case (DisplayUpdate roots visible v bounds)
  then show "held_inv s \<Longrightarrow> ?thesis"
    by (simp add: step_def held_inv_def)
qed

lemma run_inv: "fallback_inv s \<Longrightarrow> fallback_inv (run gt gb evs s)"
  unfolding run_def by (induction evs arbitrary: s) (simp_all add: step_inv)

lemma run_held:
  "held_inv s \<Longrightarrow> \<forall>ev \<in> set evs. \<not> eviction ev \<Longrightarrow> held_inv (run gt gb evs s)"
  unfolding run_def by (induction evs arbitrary: s) (simp_all add: step_held)

lemma fresh_inv: "fresh s \<Longrightarrow> fallback_inv s \<and> held_inv s"
  by (simp add: fresh_def fallback_inv_def held_inv_def)

lemma distinct_map_filter_le1:
  "distinct (map f xs) \<Longrightarrow> length (filter (\<lambda>x. f x = k) xs) \<le> 1"
proof (induction xs)
  case Nil
  then show ?case by simp
next
  case (Cons x xs)
  show ?case
  proof (cases "f x = k")
    case True
    from Cons.prems have "f x \<notin> f ` set xs" by simp
    with True have "\<And>y. y \<in> set xs \<Longrightarrow> f y \<noteq> k" by blast
    then have "filter (\<lambda>x. f x = k) xs = []"
      by (simp add: filter_empty_conv)
    with True show ?thesis by simp
  next
    case False
    with Cons show ?thesis by simp
  qed
qed

text \<open>While no chunk is evicted, queries of distinct chunk objects have distinct keys.\<close>

lemma held_distinct_keys:
  assumes "fallback_inv s" "held_inv s"
  shows "distinct (map manifestKey (outstanding s))"
proof -
  from assms(1) have d: "distinct (map manifest (outstanding s))"
    and un: "\<And>k k' c c'. chunks s k = Some c \<Longrightarrow> chunks s k' = Some c' \<Longrightarrow>
               identity c = identity c' \<Longrightarrow> k = k'"
    and rc: "\<And>q k c. q \<in> set (outstanding s) \<Longrightarrow> chunks s k = Some c \<Longrightarrow>
               identity c = manifest q \<Longrightarrow> k = manifestKey q \<and> state c = REQUESTING_CHILDREN"
    unfolding fallback_inv_def distinct_objects_def by blast+
  have "inj_on manifestKey (set (outstanding s))"
  proof (rule inj_onI)
    fix x y assume x: "x \<in> set (outstanding s)" and y: "y \<in> set (outstanding s)"
      and e: "manifestKey x = manifestKey y"
    from assms(2) x obtain cx where cx: "chunks s (manifestKey x) = Some cx" "identity cx = manifest x"
      unfolding held_inv_def by blast
    from assms(2) y obtain cy where cy: "chunks s (manifestKey y) = Some cy" "identity cy = manifest y"
      unfolding held_inv_def by blast
    from cx cy e have "manifest x = manifest y" by simp
    with d x y show "x = y" by (auto simp: distinct_map dest: inj_onD)
  qed
  moreover from d have "distinct (outstanding s)" by (simp add: distinct_map)
  ultimately show ?thesis by (simp add: distinct_map)
qed

text \<open>
  Claim C1, as amended. In every state \<open>s\<close> that the layer reaches from a fresh one, by any
  sequence of passes, settled queries, clock ticks, chunk-manager updates, evictions and
  display updates:
  \<^item> no manifest chunk object has more than one fallback query outstanding, and a chunk that
    the source holds and that has one is in \<open>REQUESTING_CHILDREN\<close>;
  \<^item> the callback of a pass, visiting a segment whose manifest is \<open>FAILED\<close> while a graph
    client is configured, moves the manifest to \<open>REQUESTING_CHILDREN\<close> and issues exactly one
    \<open>getChildren\<close> query, which holds the chunk object and the segment and root ids of the
    visit by value; visiting a segment whose manifest is in any other state, or without a
    graph client, issues no query and changes no state;
  \<^item> when the children of an outstanding query arrive, its chunk object has no query
    outstanding and, where the source still holds it, is \<open>FAILED\<close> again, so that the next
    visit of the segment repeats the cycle;
  \<^item> as long as no chunk has been evicted, no manifest key has more than one query
    outstanding either.
\<close>

theorem fallback_cycle:
  assumes "fresh s0" and "s = run getPriorityTier getBasePriority evs s0"
    and "k = getObjectKey oid (layerClipBounds s)"
    and "visited = snd (visit tier basePriority (oid, rootObjectId) s)"
    and "resolved = step getPriorityTier getBasePriority (ChildrenResolved q children) s"
  shows "queries_for obj s \<le> 1 \<and>
         (\<forall>c. chunks s k' = Some c \<and> queries_for (identity c) s = 1 \<longrightarrow>
              state c = REQUESTING_CHILDREN) \<and>
         (\<forall>c. chunks s k = Some c \<and> state c = FAILED \<and> chunkedGraph s \<longrightarrow>
              chunks visited = (chunks s)(k \<mapsto> c\<lparr>state := REQUESTING_CHILDREN\<rparr>) \<and>
              outstanding visited = outstanding s @
                [\<lparr>manifest = identity c, manifestKey = k, queried = oid, segmentID = oid,
                  rootID = rootObjectId\<rparr>]) \<and>
         (\<forall>c. chunks s k = Some c \<and> \<not> (state c = FAILED \<and> chunkedGraph s) \<longrightarrow>
              chunks visited = chunks s \<and> outstanding visited = outstanding s) \<and>
         (q \<in> set (outstanding s) \<longrightarrow>
            queries_for (manifest q) resolved = 0 \<and>
            (\<forall>c. chunks s (manifestKey q) = Some c \<and> identity c = manifest q \<longrightarrow>
                 chunks resolved = (chunks s)(manifestKey q \<mapsto> c\<lparr>state := FAILED\<rparr>))) \<and>
         ((\<forall>ev \<in> set evs. \<not> eviction ev) \<longrightarrow> queries_for_key k' s \<le> 1)"
proof -
  have inv: "fallback_inv s" using assms(1,2) by (simp add: run_inv fresh_inv)
  note d = fallback_invD(3) [OF inv] and rc = fallback_invD(5) [OF inv]
  have a: "queries_for obj s \<le> 1"
    unfolding queries_for_def using d by (rule distinct_map_filter_le1)
  have b: "state c = REQUESTING_CHILDREN"
    if "chunks s k' = Some c" "queries_for (identity c) s = 1" for c
  proof -
    from that(2) have "filter (\<lambda>q. manifest q = identity c) (outstanding s) \<noteq> []"
      by (auto simp: queries_for_def)
    then obtain q where "q \<in> set (outstanding s)" "manifest q = identity c"
      by (auto simp: filter_empty_conv)
    with rc [OF _ that(1)] show ?thesis by simp
  qed
  obtain e s' where v: "visit tier basePriority (oid, rootObjectId) s = (e, s')"
    by (cases "visit tier basePriority (oid, rootObjectId) s")
  then have vs: "visited = s'" by (simp add: assms(4))
  have c: "chunks visited = (chunks s)(k \<mapsto> c\<lparr>state := REQUESTING_CHILDREN\<rparr>) \<and>
           outstanding visited = outstanding s @
                [\<lparr>manifest = identity c, manifestKey = k, queried = oid, segmentID = oid,
                  rootID = rootObjectId\<rparr>]"
    if "chunks s k = Some c" "state c = FAILED" "chunkedGraph s" for c
    using v assms(3) by (cases rule: visit_cases) (use that in \<open>simp_all add: vs\<close>)
  have c': "chunks visited = chunks s \<and> outstanding visited = outstanding s"
    if "chunks s k = Some c" "\<not> (state c = FAILED \<and> chunkedGraph s)" for c
    using v assms(3) by (cases rule: visit_cases) (use that in \<open>auto simp: vs\<close>)
  have e: "queries_for (manifest q) resolved = 0 \<and>
            (\<forall>c. chunks s (manifestKey q) = Some c \<and> identity c = manifest q \<longrightarrow>
                 chunks resolved = (chunks s)(manifestKey q \<mapsto> c\<lparr>state := FAILED\<rparr>))"
    if q: "q \<in> set (outstanding s)"
  proof -
    have r: "resolved = children_received q children (s\<lparr>outstanding := remove1 q (outstanding s)\<rparr>)"
      using q by (simp add: assms(5) step_def)
    have "\<And>y. y \<in> set (remove1 q (outstanding s)) \<Longrightarrow> manifest y \<noteq> manifest q"
      using distinct_map_remove1(2) [OF d q] .
    then have "filter (\<lambda>y. manifest y = manifest q) (remove1 q (outstanding s)) = []"
      by (auto simp: filter_empty_conv)
    then have "queries_for (manifest q) resolved = 0"
      by (simp add: r children_received_fields queries_for_def)
    moreover have "chunks resolved = (chunks s)(manifestKey q \<mapsto> c\<lparr>state := FAILED\<rparr>)"
      if "chunks s (manifestKey q) = Some c" "identity c = manifest q" for c
      using that by (simp add: r children_received_fields set_state_chunks)
    ultimately show ?thesis by blast
  qed
  have f: "queries_for_key k' s \<le> 1" if "\<forall>ev \<in> set evs. \<not> eviction ev"
  proof -
    have "held_inv s" using assms(1,2) that by (simp add: run_held fresh_inv)
    from held_distinct_keys [OF inv this] show ?thesis
      unfolding queries_for_key_def by (rule distinct_map_filter_le1)
  qed
  from a b c c' e f show ?thesis by blast
qed

lemmas example_defs = example_state_def run_def example_events_def example_layer_def step_def updateChunkPriorities_def
  visit_def getChunk_def getObjectKey_def initializeManifestChunk_def requestChunk_def set_state_def
  chunk_manager_update_def example_getPriorityTier_def example_getBasePriority_def Let_def
  MESH_OBJECT_MANIFEST_CHUNK_PRIORITY_def float64_numeral

lemma example_state_outstanding:
  "outstanding example_state =
     [\<lparr>manifest = 1, manifestKey = (6, None), queried = 6, segmentID = 6, rootID = 6\<rparr>]"
  by (simp add: example_defs)

lemma example_state_5:
  "chunks example_state (5, None) =
     Some \<lparr>identity = 0, key = (5, None), objectId = 5, fragmentIds = None, clipBounds = None,
           state = FAILED\<rparr>"
  by (simp add: example_defs)

lemma example_state_6:
  "chunks example_state (6, None) =
     Some \<lparr>identity = 1, key = (6, None), objectId = 6, fragmentIds = None, clipBounds = None,
           state = REQUESTING_CHILDREN\<rparr>"
  by (simp add: example_defs)

lemma example_state_graph: "chunkedGraph example_state \<and> layerClipBounds example_state = None"
  by (simp add: example_defs)

lemma fresh_example_layer: "fresh example_layer"
  by (simp add: fresh_def example_layer_def state_of_def distinct_objects_def)

text \<open>
  In the example run, segment 6 has its query outstanding and its manifest is in
  \<open>REQUESTING_CHILDREN\<close>; a visit of segment 5, whose manifest is \<open>FAILED\<close>, issues the
  query of segment 5; a visit of segment 6 issues none; the children of segment 6 arriving
  leave its manifest \<open>FAILED\<close> with no query.
\<close>

theorem fallback_cycle_witness:
  "fresh example_layer \<and>
   chunkedGraph example_state \<and>
   \<lparr>manifest = 1, manifestKey = (6, None), queried = 6, segmentID = 6, rootID = 6\<rparr>
     \<in> set (outstanding example_state) \<and>
   queries_for 1 example_state = 1 \<and>
   state_of example_state (6, None) = Some REQUESTING_CHILDREN \<and>
   state_of example_state (5, None) = Some FAILED \<and>
   state_of (snd (visit VISIBLE (Num 0) (5, 5) example_state)) (5, None) = Some REQUESTING_CHILDREN \<and>
   outstanding (snd (visit VISIBLE (Num 0) (5, 5) example_state)) =
     [\<lparr>manifest = 1, manifestKey = (6, None), queried = 6, segmentID = 6, rootID = 6\<rparr>,
      \<lparr>manifest = 0, manifestKey = (5, None), queried = 5, segmentID = 5, rootID = 5\<rparr>] \<and>
   outstanding (snd (visit VISIBLE (Num 0) (6, 6) example_state)) =
     [\<lparr>manifest = 1, manifestKey = (6, None), queried = 6, segmentID = 6, rootID = 6\<rparr>] \<and>
   state_of (step example_getPriorityTier example_getBasePriority
               (ChildrenResolved
                  \<lparr>manifest = 1, manifestKey = (6, None), queried = 6, segmentID = 6, rootID = 6\<rparr>
                  [7, 8])
               example_state) (6, None) = Some FAILED \<and>
   queries_for 1
     (step example_getPriorityTier example_getBasePriority
        (ChildrenResolved
           \<lparr>manifest = 1, manifestKey = (6, None), queried = 6, segmentID = 6, rootID = 6\<rparr> [7, 8])
        example_state) = 0 \<and>
   queries_for_key (6, None) example_state = 1"
proof -
  have ne: "\<forall>ev \<in> set example_events. \<not> eviction ev"
    by (simp add: example_events_def eviction_def)
  note t5 = fallback_cycle [OF fresh_example_layer example_state_def refl refl refl,
      where oid = 5 and rootObjectId = 5 and tier = VISIBLE and basePriority = "Num 0"
        and obj = 1 and k' = "(6, None)"
        and q = "\<lparr>manifest = 1, manifestKey = (6, None), queried = 6, segmentID = 6, rootID = 6\<rparr>"
        and children = "[7, 8]"]
  note t6 = fallback_cycle [OF fresh_example_layer example_state_def refl refl refl,
      where oid = 6 and rootObjectId = 6 and tier = VISIBLE and basePriority = "Num 0"
        and obj = 1 and k' = "(6, None)"
        and q = "\<lparr>manifest = 1, manifestKey = (6, None), queried = 6, segmentID = 6, rootID = 6\<rparr>"
        and children = "[7, 8]"]
  have q1: "queries_for 1 example_state = 1" "queries_for_key (6, None) example_state = 1"
    by (simp_all add: queries_for_def queries_for_key_def example_state_outstanding)
  show ?thesis
    using t5 t6 ne fresh_example_layer q1
    by (simp add: example_state_outstanding example_state_5 example_state_6 example_state_graph
          getObjectKey_def state_of_def)
qed

text \<open>
  Claim C1 as stated fails. The manifest of segment 5 fails to download once; the pass after
  the failure queries the graph, and the pass after the children have arrived, finding the
  manifest \<open>FAILED\<close> again, queries it a second time: two cycles for one failed attempt.
  And when the chunk manager evicts the manifest while its query is outstanding and the
  download of the manifest created anew fails as well, two queries are outstanding for the
  manifest of segment 5.
\<close>

theorem fallback_cycle_counterexample:
  "download_failures second_cycle = 1 \<and>
   state_of (run example_getPriorityTier example_getBasePriority one_failure example_layer) (5, None) =
     Some REQUESTING_CHILDREN \<and>
   state_of (run example_getPriorityTier example_getBasePriority
               (one_failure @ [ChildrenResolved example_query [7]]) example_layer) (5, None) =
     Some FAILED \<and>
   state_of (run example_getPriorityTier example_getBasePriority second_cycle example_layer) (5, None) =
     Some REQUESTING_CHILDREN \<and>
   getChildrenCalls (run example_getPriorityTier example_getBasePriority second_cycle example_layer) =
     [5, 5] \<and>
   outstanding (run example_getPriorityTier example_getBasePriority evicted_in_flight example_layer) =
     [\<lparr>manifest = 0, manifestKey = (5, None), queried = 5, segmentID = 5, rootID = 5\<rparr>,
      \<lparr>manifest = 1, manifestKey = (5, None), queried = 5, segmentID = 5, rootID = 5\<rparr>] \<and>
   queries_for_key (5, None)
     (run example_getPriorityTier example_getBasePriority evicted_in_flight example_layer) = 2"
  by (simp add: example_defs one_failure_def second_cycle_def evicted_in_flight_def example_query_def
        download_failures_def state_of_def children_received_def debouncedHandleChildChunks_def
        push_children_def evict_def queries_for_key_def)

section \<open>Mesh layer: the requests of a pass\<close>

lemma request_fragments_requested:
  "requested (request_fragments m tier base ids s) =
     requested s @ map (\<lambda>f. \<lparr>requestedChunk = Fragment (key m, f), priorityTier = tier,
                              priority = num_add base (Num 50)\<rparr>) ids"
  unfolding request_fragments_def
  by (induction ids arbitrary: s)
     (simp_all add: getFragmentChunk_def requestChunk_def Let_def MESH_OBJECT_FRAGMENT_CHUNK_PRIORITY_def)

text \<open>A visit changes neither the clip bounds nor the loaded manifests.\<close>

lemma visit_bounds:
  assumes "visit tier base (oid, r) s = (e, s')"
  shows "layerClipBounds s' = layerClipBounds s"
proof -
  obtain c s1 where g: "getChunk oid (layerClipBounds s) s = (c, s1)"
    by (cases "getChunk oid (layerClipBounds s) s")
  note gc = getChunk_cases [OF g]
  from assms g gc(3) show ?thesis
    by (auto simp: visit_def Let_def requestChunk_fields request_fragments_fields set_state_fields
             split: option.splits if_splits)
qed

lemma visit_loaded:
  assumes v: "visit tier base (oid, r) s = (e, s')"
  shows "loaded_manifest s' k' = loaded_manifest s k'"
  using v refl
proof (cases rule: visit_cases)
  case created
  then show ?thesis
    by (simp add: loaded_manifest_def loaded_def initializeManifestChunk_def)
next
  case (queried c)
  then show ?thesis
    by (simp add: loaded_manifest_def loaded_def)
next
  case (left c)
  then show ?thesis by (simp add: loaded_manifest_def)
qed

text \<open>What a visit requests, and whether it throws.\<close>

lemma visit_requested:
  assumes v: "visit tier base (oid, r) s = (e, s')"
    and k: "k = getObjectKey oid (layerClipBounds s)"
  shows "(\<forall>c. loaded_manifest s k = Some c \<longrightarrow> fragmentIds c \<noteq> None) \<Longrightarrow>
           e = None \<and> requested s' = requested s @ visit_requests tier base oid s"
    and "loaded_manifest s k = Some c \<Longrightarrow> fragmentIds c = None \<Longrightarrow>
           e = Some TypeError \<and>
           requested s' = requested s @
             [\<lparr>requestedChunk = Manifest k, priorityTier = tier, priority = num_add base (Num 100)\<rparr>]"
proof -
  obtain c0 s1 where g: "getChunk oid (layerClipBounds s) s = (c0, s1)"
    by (cases "getChunk oid (layerClipBounds s) s")
  note gc = getChunk_cases [OF g, folded k]
  define s2 where "s2 = requestChunk (Manifest k) tier (num_add base MESH_OBJECT_MANIFEST_CHUNK_PRIORITY) s1"
  have r2: "requested s2 = requested s @
      [\<lparr>requestedChunk = Manifest k, priorityTier = tier, priority = num_add base (Num 100)\<rparr>]"
    by (simp add: s2_def requestChunk_def gc(4) MESH_OBJECT_MANIFEST_CHUNK_PRIORITY_def)
  have g2: "chunkedGraph s2 = chunkedGraph s" by (simp add: s2_def requestChunk_fields gc)
  have lm: "loaded_manifest s k = (if loaded c0 then Some c0 else None)"
  proof (cases "chunks s k")
    case None
    from gc(7) [OF None] have "\<not> loaded c0" by (simp add: loaded_def initializeManifestChunk_def)
    with None show ?thesis by (simp add: loaded_manifest_def)
  next
    case (Some c1)
    with gc(6) have "c0 = c1" by simp
    with Some show ?thesis by (simp add: loaded_manifest_def)
  qed
  have unloaded: "e = None \<and> requested s' = requested s2" if "\<not> loaded c0"
  proof -
    from that have n: "state c0 \<notin> {SYSTEM_MEMORY_WORKER, SYSTEM_MEMORY, GPU_MEMORY}"
      by (simp add: loaded_def)
    from v g n show ?thesis
      by (auto simp: visit_def Let_def k [symmetric] s2_def [symmetric] set_state_def
               split: option.splits if_splits)
  qed
  have listed: "e = None \<and> requested s' = requested s2 @
      map (\<lambda>f. \<lparr>requestedChunk = Fragment (key c0, f), priorityTier = tier,
                 priority = num_add base (Num 50)\<rparr>) ids"
    if "loaded c0" "fragmentIds c0 = Some ids" for ids
  proof -
    from that(1) have n: "state c0 \<in> {SYSTEM_MEMORY_WORKER, SYSTEM_MEMORY, GPU_MEMORY}"
      by (simp add: loaded_def)
    from v g n that(2) have "e = None" "s' = request_fragments c0 tier base ids s2"
      by (simp_all add: visit_def Let_def k [symmetric] s2_def [symmetric])
    then show ?thesis by (simp add: request_fragments_requested)
  qed
  have unlisted: "e = Some TypeError \<and> requested s' = requested s2"
    if "loaded c0" "fragmentIds c0 = None"
  proof -
    from that(1) have n: "state c0 \<in> {SYSTEM_MEMORY_WORKER, SYSTEM_MEMORY, GPU_MEMORY}"
      by (simp add: loaded_def)
    from v g n that(2) show ?thesis
      by (simp add: visit_def Let_def k [symmetric] s2_def [symmetric])
  qed
  show "e = None \<and> requested s' = requested s @ visit_requests tier base oid s"
    if p: "\<forall>c. loaded_manifest s k = Some c \<longrightarrow> fragmentIds c \<noteq> None"
  proof (cases "loaded c0")
    case True
    with p lm obtain ids where ids: "fragmentIds c0 = Some ids" by auto
    from listed [OF True ids] True ids show ?thesis
      by (simp add: visit_requests_def Let_def k [symmetric] lm r2)
  next
    case False
    from unloaded [OF False] False show ?thesis
      by (simp add: visit_requests_def Let_def k [symmetric] lm r2)
  qed
  show "e = Some TypeError \<and>
        requested s' = requested s @
          [\<lparr>requestedChunk = Manifest k, priorityTier = tier, priority = num_add base (Num 100)\<rparr>]"
    if "loaded_manifest s k = Some c" "fragmentIds c = None"
  proof -
    from that(1) lm have "loaded c0" "c = c0" by (auto split: if_splits)
    with unlisted that(2) show ?thesis by (simp add: r2)
  qed
qed

lemma visit_requests_cong:
  assumes "layerClipBounds s' = layerClipBounds s" "\<And>k. loaded_manifest s' k = loaded_manifest s k"
  shows "visit_requests tier base oid s' = visit_requests tier base oid s"
  using assms by (simp add: visit_requests_def)

lemma forEach_requested:
  assumes "fragment_lists_present s" "forEachVisibleSegment3D (visit tier base) segs s = (e, s')"
  shows "e = None \<and>
         requested s' = requested s @ concat (map (\<lambda>seg. visit_requests tier base (fst seg) s) segs)"
  using assms
proof (induction segs arbitrary: s)
  case Nil
  then show ?case by simp
next
  case (Cons seg segs)
  obtain oid r where seg: "seg = (oid, r)" by (cases seg)
  obtain e1 s1 where v: "visit tier base (oid, r) s = (e1, s1)" by (cases "visit tier base (oid, r) s")
  from Cons.prems(1)
  have "\<forall>c. loaded_manifest s (getObjectKey oid (layerClipBounds s)) = Some c \<longrightarrow> fragmentIds c \<noteq> None"
    unfolding fragment_lists_present_def by blast
  from visit_requested(1) [OF v refl this]
  have e1: "e1 = None" and r1: "requested s1 = requested s @ visit_requests tier base oid s"
    by simp_all
  from Cons.prems(2) v e1 seg have f: "forEachVisibleSegment3D (visit tier base) segs s1 = (e, s')"
    by simp
  have p1: "fragment_lists_present s1"
    using Cons.prems(1) by (simp add: fragment_lists_present_def visit_loaded [OF v])
  have same: "visit_requests tier base oid' s1 = visit_requests tier base oid' s" for oid'
    by (rule visit_requests_cong) (simp_all add: visit_bounds [OF v] visit_loaded [OF v])
  from Cons.IH [OF p1 f] have e: "e = None"
    and rq: "requested s' = requested s1 @ concat (map (\<lambda>seg. visit_requests tier base (fst seg) s1) segs)"
    by blast+
  have m: "map (\<lambda>seg. visit_requests tier base (fst seg) s1) segs =
           map (\<lambda>seg. visit_requests tier base (fst seg) s) segs"
    by (simp add: same)
  show ?case
    unfolding seg rq m r1 using e by simp
qed

lemma visit_requests_conform:
  "x \<in> set (visit_requests tier base oid s) \<Longrightarrow>
     priorityTier x = tier \<and>
     priority x = num_add base (case requestedChunk x of Manifest _ \<Rightarrow> Num 100 | Fragment _ \<Rightarrow> Num 50)"
  by (auto simp: visit_requests_def Let_def split: option.splits if_splits)

lemma visit_requests_manifest:
  "\<lparr>requestedChunk = Manifest (getObjectKey oid (layerClipBounds s)), priorityTier = tier,
     priority = num_add base (Num 100)\<rparr> \<in> set (visit_requests tier base oid s)"
  by (simp add: visit_requests_def Let_def)

lemma visit_requests_fragment:
  "loaded_manifest s (getObjectKey oid (layerClipBounds s)) = Some c \<Longrightarrow>
   fragmentIds c = Some ids \<Longrightarrow> f \<in> set ids \<Longrightarrow>
   \<lparr>requestedChunk = Fragment (key c, f), priorityTier = tier,
     priority = num_add base (Num 50)\<rparr> \<in> set (visit_requests tier base oid s)"
  by (simp add: visit_requests_def Let_def)

text \<open>
  Claim C8, as amended. In every priority-update pass of a layer whose visibility is not
  negative infinity and in which every loaded manifest holds its fragment list (the pass
  enumerating the visible 3D segments), the pass throws nothing and, among the requests it
  makes, for every visible 3D segment: the manifest chunk is requested at the sum
  \<open>basePriority + 100\<close>, and each fragment of a loaded manifest at the sum
  \<open>basePriority + 50\<close>, in the tier of the pass. Every request of the pass is at
  \<open>basePriority + 100\<close> if it names a manifest and at \<open>basePriority + 50\<close> if it names a
  fragment. The sums are those of binary64 numbers: for an integer base priority of
  magnitude at most \<open>2 ^ 53 - 100\<close> they are exact, and the manifest outranks its fragments
  by the fixed offset 50.
\<close>

theorem pass_requests:
  assumes vis: "layerVisibility s \<noteq> NEGATIVE_INFINITY"
    and fl: "fragment_lists_present s"
    and en: "enumerates s segs"
    and oid: "oid \<in> visibleSegments3D s"
    and new: "new = drop (length (requested s))
                (requested (snd (updateChunkPriorities getPriorityTier getBasePriority segs s)))"
    and tier: "tier = getPriorityTier (layerVisibility s)"
    and base: "basePriority = getBasePriority (layerVisibility s)"
    and k: "k = getObjectKey oid (layerClipBounds s)"
  shows "fst (updateChunkPriorities getPriorityTier getBasePriority segs s) = None \<and>
         \<lparr>requestedChunk = Manifest k, priorityTier = tier,
           priority = num_add basePriority (Num 100)\<rparr> \<in> set new \<and>
         (\<forall>c ids f. chunks s k = Some c \<and> loaded c \<and> fragmentIds c = Some ids \<and> f \<in> set ids \<longrightarrow>
             \<lparr>requestedChunk = Fragment (key c, f), priorityTier = tier,
               priority = num_add basePriority (Num 50)\<rparr> \<in> set new) \<and>
         (\<forall>x \<in> set new.
             priorityTier x = tier \<and>
             priority x = num_add basePriority
                            (case requestedChunk x of Manifest _ \<Rightarrow> Num 100 | Fragment _ \<Rightarrow> Num 50)) \<and>
         (\<forall>b. basePriority = Num (of_int b) \<and> \<bar>b\<bar> + 100 \<le> 2 ^ 53 \<longrightarrow>
             num_add basePriority (Num 100) = Num (of_int b + 100) \<and>
             num_add basePriority (Num 50) = Num (of_int b + 50))"
proof -
  obtain e s' where f: "forEachVisibleSegment3D (visit tier basePriority) segs s = (e, s')"
    by (cases "forEachVisibleSegment3D (visit tier basePriority) segs s")
  have u: "updateChunkPriorities getPriorityTier getBasePriority segs s = (e, s')"
    using vis f by (simp add: updateChunkPriorities_def Let_def tier base)
  from forEach_requested [OF fl f] have e: "e = None"
    and r: "requested s' = requested s @ concat (map (\<lambda>seg. visit_requests tier basePriority (fst seg) s) segs)"
    by blast+
  have n: "new = concat (map (\<lambda>seg. visit_requests tier basePriority (fst seg) s) segs)"
    by (simp add: new u r)
  from en oid have "oid \<in> fst ` set segs" by (simp add: enumerates_def)
  then obtain seg where seg: "seg \<in> set segs" "fst seg = oid"
    by blast
  then have sub: "set (visit_requests tier basePriority oid s) \<subseteq> set new"
    unfolding n by auto
  have a: "\<lparr>requestedChunk = Manifest k, priorityTier = tier,
             priority = num_add basePriority (Num 100)\<rparr> \<in> set new"
    using sub visit_requests_manifest [of oid s tier basePriority] by (auto simp: k)
  have b: "\<lparr>requestedChunk = Fragment (key c, f), priorityTier = tier,
             priority = num_add basePriority (Num 50)\<rparr> \<in> set new"
    if "chunks s k = Some c" "loaded c" "fragmentIds c = Some ids" "f \<in> set ids" for c ids f
  proof -
    from that(1,2) have "loaded_manifest s (getObjectKey oid (layerClipBounds s)) = Some c"
      by (simp add: loaded_manifest_def k)
    from visit_requests_fragment [OF this that(3,4), of tier basePriority] sub show ?thesis
      by auto
  qed
  have c: "priorityTier x = tier \<and>
           priority x = num_add basePriority
                          (case requestedChunk x of Manifest _ \<Rightarrow> Num 100 | Fragment _ \<Rightarrow> Num 50)"
    if "x \<in> set new" for x
  proof -
    from that obtain sg where "x \<in> set (visit_requests tier basePriority (fst sg) s)"
      unfolding n by auto
    then show ?thesis by (rule visit_requests_conform)
  qed
  have d: "num_add basePriority (Num 100) = Num (of_int b + 100) \<and>
           num_add basePriority (Num 50) = Num (of_int b + 50)"
    if "basePriority = Num (of_int b)" "\<bar>b\<bar> + 100 \<le> 2 ^ 53" for b
  proof -
    from that(2) have "\<bar>b + 100\<bar> \<le> 2 ^ 53" "\<bar>b + 50\<bar> \<le> 2 ^ 53" by linarith+
    from num_add_int [OF this(1)] num_add_int [OF this(2)] that(1) show ?thesis by simp
  qed
  from a b c d show ?thesis unfolding u e by (simp only: fst_conv) blast
qed

lemma loaded_layer_present: "fragment_lists_present loaded_layer"
  by (simp add: fragment_lists_present_def loaded_manifest_def loaded_layer_def example_layer_def)

lemma example_base_2: "example_getBasePriority (Visibility 2) = Num 2000"
  by (simp add: example_getBasePriority_def float64_numeral)

theorem pass_requests_witness:
  "layerVisibility loaded_layer \<noteq> NEGATIVE_INFINITY \<and> fragment_lists_present loaded_layer \<and>
   enumerates loaded_layer [(5, 5)] \<and> 5 \<in> visibleSegments3D loaded_layer \<and>
   chunks loaded_layer (5, None) =
     Some \<lparr>identity = 0, key = (5, None), objectId = 5, fragmentIds = Some [''a'', ''b''],
           clipBounds = None, state = SYSTEM_MEMORY\<rparr> \<and>
   example_getBasePriority (layerVisibility loaded_layer) = Num (of_int 2000) \<and>
   \<bar>2000 :: int\<bar> + 100 \<le> 2 ^ 53 \<and>
   fst (updateChunkPriorities example_getPriorityTier example_getBasePriority [(5, 5)] loaded_layer) = None \<and>
   \<lparr>requestedChunk = Manifest (5, None), priorityTier = PREFETCH, priority = Num 2100\<rparr>
     \<in> set (requested (snd (updateChunkPriorities example_getPriorityTier example_getBasePriority
                              [(5, 5)] loaded_layer))) \<and>
   \<lparr>requestedChunk = Fragment ((5, None), ''b''), priorityTier = PREFETCH, priority = Num 2050\<rparr>
     \<in> set (requested (snd (updateChunkPriorities example_getPriorityTier example_getBasePriority
                              [(5, 5)] loaded_layer)))"
proof -
  have v: "layerVisibility loaded_layer \<noteq> NEGATIVE_INFINITY"
    and en: "enumerates loaded_layer [(5, 5)]" and m: "5 \<in> visibleSegments3D loaded_layer"
    and r0: "requested loaded_layer = []" and cb: "layerClipBounds loaded_layer = None"
    and lv: "layerVisibility loaded_layer = Visibility 2"
    and ch: "chunks loaded_layer (5, None) =
     Some \<lparr>identity = 0, key = (5, None), objectId = 5, fragmentIds = Some [''a'', ''b''],
           clipBounds = None, state = SYSTEM_MEMORY\<rparr>"
    by (simp_all add: loaded_layer_def example_layer_def enumerates_def)
  have b: "example_getBasePriority (layerVisibility loaded_layer) = Num (of_int 2000)"
    by (simp add: lv example_base_2)
  have s: "\<bar>2000 :: int\<bar> + 100 \<le> 2 ^ 53" by simp
  note t = pass_requests [OF v loaded_layer_present en m refl refl refl refl,
        of example_getPriorityTier example_getBasePriority]
  show ?thesis
    using t v loaded_layer_present en m ch b s
    by (simp add: r0 cb lv getObjectKey_def example_getPriorityTier_def example_base_2
          float64_numeral loaded_def)
qed

text \<open>
  Claim C8 as stated fails in three ways. A pass at visibility negative infinity returns at
  its guard, and the manifest of the visible segment 5 is not requested (nothing is). A pass
  that meets a loaded manifest whose fragment list has been reset throws, and the manifest
  of the visible segment 6, which comes after it, is not requested. And at a visibility of
  \<open>2 ^ 53\<close>, where the base priority is \<open>2 ^ 53 * 1000\<close>, the manifest and its fragments
  are requested at one and the same priority: both sums round to the base priority.
\<close>

theorem pass_requests_counterexample:
  "enumerates hidden_layer [(5, 5), (6, 6)] \<and> 5 \<in> visibleSegments3D hidden_layer \<and>
   requested (snd (updateChunkPriorities example_getPriorityTier example_getBasePriority
                     [(5, 5), (6, 6)] hidden_layer)) = [] \<and>
   enumerates freed_layer [(5, 5), (6, 6)] \<and> 6 \<in> visibleSegments3D freed_layer \<and>
   layerVisibility freed_layer = POSITIVE_INFINITY \<and>
   updateChunkPriorities example_getPriorityTier example_getBasePriority [(5, 5), (6, 6)] freed_layer =
     (Some TypeError,
      freed_layer\<lparr>requested :=
        [\<lparr>requestedChunk = Manifest (5, None), priorityTier = VISIBLE, priority = Num 100\<rparr>]\<rparr>) \<and>
   enumerates far_layer [(5, 5)] \<and> fragment_lists_present far_layer \<and>
   layerVisibility far_layer = Visibility (2 ^ 53) \<and>
   requested (snd (updateChunkPriorities example_getPriorityTier example_getBasePriority
                     [(5, 5)] far_layer)) =
     [\<lparr>requestedChunk = Manifest (5, None), priorityTier = PREFETCH, priority = Num (2 ^ 53 * 1000)\<rparr>,
      \<lparr>requestedChunk = Fragment ((5, None), ''a''), priorityTier = PREFETCH,
        priority = Num (2 ^ 53 * 1000)\<rparr>,
      \<lparr>requestedChunk = Fragment ((5, None), ''b''), priorityTier = PREFETCH,
        priority = Num (2 ^ 53 * 1000)\<rparr>]"
proof -
  have a: "enumerates hidden_layer [(5, 5), (6, 6)] \<and> 5 \<in> visibleSegments3D hidden_layer \<and>
   requested (snd (updateChunkPriorities example_getPriorityTier example_getBasePriority
                     [(5, 5), (6, 6)] hidden_layer)) = []"
    by (simp add: hidden_layer_def example_layer_def enumerates_def updateChunkPriorities_def)
  have b: "enumerates freed_layer [(5, 5), (6, 6)] \<and> 6 \<in> visibleSegments3D freed_layer \<and>
   layerVisibility freed_layer = POSITIVE_INFINITY \<and>
   updateChunkPriorities example_getPriorityTier example_getBasePriority [(5, 5), (6, 6)] freed_layer =
     (Some TypeError,
      freed_layer\<lparr>requested :=
        [\<lparr>requestedChunk = Manifest (5, None), priorityTier = VISIBLE, priority = Num 100\<rparr>]\<rparr>)"
    by (simp add: freed_layer_def example_layer_def enumerates_def updateChunkPriorities_def
          visit_def getChunk_def getObjectKey_def requestChunk_def Let_def
          example_getPriorityTier_def example_getBasePriority_def
          MESH_OBJECT_MANIFEST_CHUNK_PRIORITY_def float64_numeral)
  have base: "example_getBasePriority (Visibility (2 ^ 53)) = Num (2 ^ 53 * 1000)"
    using float64_large by (simp add: example_getBasePriority_def)
  have f: "enumerates far_layer [(5, 5)] \<and> fragment_lists_present far_layer \<and>
      layerVisibility far_layer = Visibility (2 ^ 53)"
    by (simp add: far_layer_def loaded_layer_def example_layer_def enumerates_def
          fragment_lists_present_def loaded_manifest_def)
  have u: "updateChunkPriorities example_getPriorityTier example_getBasePriority [(5, 5)] far_layer =
      forEachVisibleSegment3D (visit PREFETCH (Num (2 ^ 53 * 1000))) [(5, 5)] far_layer"
    using base
    by (simp add: far_layer_def loaded_layer_def example_layer_def updateChunkPriorities_def
          example_getPriorityTier_def Let_def)
  have v: "requested (snd (forEachVisibleSegment3D (visit PREFETCH (Num (2 ^ 53 * 1000))) [(5, 5)] far_layer)) =
     [\<lparr>requestedChunk = Manifest (5, None), priorityTier = PREFETCH,
        priority = num_add (Num (2 ^ 53 * 1000)) (Num 100)\<rparr>,
      \<lparr>requestedChunk = Fragment ((5, None), ''a''), priorityTier = PREFETCH,
        priority = num_add (Num (2 ^ 53 * 1000)) (Num 50)\<rparr>,
      \<lparr>requestedChunk = Fragment ((5, None), ''b''), priorityTier = PREFETCH,
        priority = num_add (Num (2 ^ 53 * 1000)) (Num 50)\<rparr>]"
    by (simp add: far_layer_def loaded_layer_def example_layer_def
          visit_def getChunk_def getObjectKey_def requestChunk_def Let_def
          request_fragments_def getFragmentChunk_def
          MESH_OBJECT_MANIFEST_CHUNK_PRIORITY_def MESH_OBJECT_FRAGMENT_CHUNK_PRIORITY_def
          del: num_add.simps)
  from a b f show ?thesis
    unfolding u v num_add_large_100 num_add_large_50 by simp
qed

section \<open>Mesh layer: root membership and batching\<close>

lemma fold_add_child_display:
  "rootSegments (fold (add_child r) es s) = rootSegments s \<and>
   visibleSegments3D (fold (add_child r) es s) = visibleSegments3D s \<union> set es \<and>
   segmentEquivalences (fold (add_child r) es s) = segmentEquivalences s @ map (Pair r) es"
  by (induction es arbitrary: s) (auto simp: add_child_def)

lemma fold_delete_segment_display:
  "rootSegments (fold delete_segment es s) = rootSegments s \<and>
   visibleSegments3D (fold delete_segment es s) = visibleSegments3D s - set es \<and>
   segmentEquivalences (fold delete_segment es s) = segmentEquivalences s"
  by (induction es arbitrary: s) (auto simp: delete_segment_def)

lemma handle_entry_display:
  "display_state (handle_entry entry s) = entry_effect entry (display_state s)"
proof (cases entry)
  case (Pair r elements)
  show ?thesis
  proof (cases "r \<in> rootSegments s")
    case True
    with Pair show ?thesis
      by (simp add: handle_entry_def entry_effect_def display_state_def
            fold_delete_segment_display fold_add_child_display)
  next
    case False
    with Pair show ?thesis
      by (simp add: handle_entry_def entry_effect_def display_state_def)
  qed
qed

lemma fold_handle_entry_display:
  "display_state (fold handle_entry m s) = fold entry_effect m (display_state s)"
  by (induction m arbitrary: s) (simp_all add: handle_entry_display)

lemma handleChildChunks_display:
  "display_state (handleChildChunks s) = fold entry_effect (requestedChildChunks s) (display_state s)"
  using fold_handle_entry_display [of "requestedChildChunks s" s]
  by (simp add: handleChildChunks_def display_state_def)

lemma entry_effect_roots: "fst (entry_effect entry d) = fst d"
  by (cases entry; cases d) (simp add: entry_effect_def)

lemma fold_entry_effect_skip:
  "r \<notin> fst d \<Longrightarrow>
   fold entry_effect m d = fold entry_effect (filter (\<lambda>entry. fst entry \<noteq> r) m) d"
proof (induction m arbitrary: d)
  case Nil
  then show ?case by simp
next
  case (Cons entry m)
  have r': "r \<notin> fst (entry_effect entry d)" using Cons.prems by (simp add: entry_effect_roots)
  show ?case
  proof (cases "fst entry = r")
    case True
    then have "entry_effect entry d = d"
      using Cons.prems by (cases entry; cases d) (simp add: entry_effect_def)
    with True Cons show ?thesis by simp
  next
    case False
    with Cons.IH [OF r'] show ?thesis by simp
  qed
qed

text \<open>
  Claim C2. A root that is no longer in the root-segment set when the children of a query
  arrive: the continuation leaves the roots, the visible 3D segments and the equivalence
  links as they are, accumulates nothing and does not start the debounce timer. A root that
  is no longer in the root-segment set when the batch is flushed: the flush does to the roots,
  the visible 3D segments and the equivalence links exactly what it would do had the entries
  of that root never been accumulated. Membership is thus checked at both points.
\<close>

theorem removed_root_not_applied:
  "(rootID q \<notin> rootSegments s \<longrightarrow>
      display_state (children_received q children s) = display_state s \<and>
      requestedChildChunks (children_received q children s) = requestedChildChunks s \<and>
      flushAt (children_received q children s) = flushAt s) \<and>
   (r \<notin> rootSegments s \<longrightarrow>
      display_state (handleChildChunks s) =
        display_state (handleChildChunks
          (s\<lparr>requestedChildChunks := filter (\<lambda>entry. fst entry \<noteq> r) (requestedChildChunks s)\<rparr>)))"
proof -
  have a: "display_state (children_received q children s) = display_state s \<and>
      requestedChildChunks (children_received q children s) = requestedChildChunks s \<and>
      flushAt (children_received q children s) = flushAt s"
    if "rootID q \<notin> rootSegments s"
    using that
    by (cases "chunks s (manifestKey q)")
       (simp_all add: children_received_def Let_def set_state_def display_state_def)
  have b: "display_state (handleChildChunks s) =
        display_state (handleChildChunks
          (s\<lparr>requestedChildChunks := filter (\<lambda>entry. fst entry \<noteq> r) (requestedChildChunks s)\<rparr>))"
    if "r \<notin> rootSegments s"
  proof -
    have "r \<notin> fst (display_state s)" using that by (simp add: display_state_def)
    from fold_entry_effect_skip [OF this, of "requestedChildChunks s"]
    show ?thesis
      by (simp add: handleChildChunks_display) (simp add: display_state_def)
  qed
  from a b show ?thesis by blast
qed

theorem removed_root_not_applied_witness:
  "rootID example_query \<notin> rootSegments deselected_layer \<and>
   display_state (children_received example_query [9] deselected_layer) = ({6}, {5, 6}, []) \<and>
   requestedChildChunks (children_received example_query [9] deselected_layer) =
     [(5, \<lparr>add = [7, 8], delete = [5]\<rparr>)] \<and>
   flushAt (children_received example_query [9] deselected_layer) = None \<and>
   display_state (handleChildChunks deselected_layer) = ({6}, {5, 6}, [])"
proof -
  have r: "rootID example_query \<notin> rootSegments deselected_layer"
    and r5: "5 \<notin> rootSegments deselected_layer"
    by (simp_all add: example_query_def deselected_layer_def example_layer_def)
  have d: "display_state deselected_layer = ({6}, {5, 6}, [])"
    by (simp add: display_state_def deselected_layer_def example_layer_def)
  have e: "display_state (handleChildChunks
          (deselected_layer\<lparr>requestedChildChunks :=
              filter (\<lambda>entry. fst entry \<noteq> 5) (requestedChildChunks deselected_layer)\<rparr>)) =
          ({6}, {5, 6}, [])"
    by (simp add: display_state_def deselected_layer_def example_layer_def handleChildChunks_def)
  show ?thesis
    using removed_root_not_applied [of example_query deselected_layer "[9]" 5] r r5 d e
    by (simp add: deselected_layer_def example_layer_def)
qed

lemma push_children_new:
  "r \<notin> fst ` set m \<Longrightarrow>
   push_children r children seg m = m @ [(r, \<lparr>add = children, delete = [seg]\<rparr>)]"
proof -
  assume a: "r \<notin> fst ` set m"
  then have "map (\<lambda>(r', b). if r' = r then (r', \<lparr>add = add b @ children, delete = delete b @ [seg]\<rparr>)
                         else (r', b)) m = m"
    by (induction m) auto
  with a show ?thesis by (simp add: push_children_def)
qed

lemma push_children_last:
  "r \<notin> fst ` set m \<Longrightarrow>
   push_children r children seg (m @ [(r, b)]) =
     m @ [(r, \<lparr>add = add b @ children, delete = delete b @ [seg]\<rparr>)]"
proof -
  assume a: "r \<notin> fst ` set m"
  then have "map (\<lambda>(r', b). if r' = r then (r', \<lparr>add = add b @ children, delete = delete b @ [seg]\<rparr>)
                         else (r', b)) m = m"
    by (induction m) auto
  then show ?thesis by (simp add: push_children_def)
qed

lemma children_received_member:
  assumes "rootID q \<in> rootSegments s"
  shows "requestedChildChunks (children_received q children s) =
           push_children (rootID q) children (segmentID q) (requestedChildChunks s)"
    and "flushAt (children_received q children s) = Some (now s + 100)"
    and "now (children_received q children s) = now s"
    and "flushes (children_received q children s) = flushes s"
    and "display_state (children_received q children s) = display_state s"
  using assms
  by (cases "chunks s (manifestKey q)";
      simp add: children_received_def Let_def set_state_def debouncedHandleChildChunks_def
        display_state_def)+

lemma requestedChildChunks_handleChildChunks: "requestedChildChunks (handleChildChunks s) = []"
  by (simp add: handleChildChunks_def)

lemma advance_before:
  assumes "flushAt s = Some due" "now s \<le> t" "t < due"
  shows "advance t s = s\<lparr>now := t\<rparr>"
  using assms by (simp add: advance_def)

lemma advance_due:
  assumes "flushAt s = Some due" "now s \<le> t" "due \<le> t"
  shows "advance t s = (handleChildChunks s)\<lparr>now := t, flushAt := None, flushes := flushes s + 1\<rparr>"
  using assms by (simp add: advance_def)

lemma push_children_extend:
  "push_children r children seg m = extend_entry r children [seg] m"
proof (cases "r \<in> fst ` set m")
  case True
  then show ?thesis by (simp add: push_children_def extend_entry_def)
next
  case False
  then show ?thesis by (simp add: push_children_new extend_entry_def)
qed

lemma extend_entry_keys: "r \<in> fst ` set (extend_entry r children segments m)"
  by (force simp: extend_entry_def)

lemma extend_entry_extend:
  "extend_entry r c2 d2 (extend_entry r c1 d1 m) = extend_entry r (c1 @ c2) (d1 @ d2) m"
proof (cases "r \<in> fst ` set m")
  case True
  then have "r \<in> fst ` set (extend_entry r c1 d1 m)" by (rule_tac extend_entry_keys)
  then show ?thesis
    using True by (simp add: extend_entry_def [of r c2 d2] extend_entry_def [of r c1 d1 m]
        extend_entry_def [of r "c1 @ c2"] comp_def case_prod_unfold cong: map_cong)
next
  case False
  then have u: "map (\<lambda>(r', b). if r' = r then (r', \<lparr>add = add b @ c2, delete = delete b @ d2\<rparr>)
                               else (r', b)) m = m"
    by (induction m) auto
  have "r \<in> fst ` set (extend_entry r c1 d1 m)" by (rule extend_entry_keys)
  then show ?thesis
    using False u by (simp add: extend_entry_def [of r c2 d2] extend_entry_def [of r c1 d1 m]
        extend_entry_def [of r "c1 @ c2"])
qed

lemma extend_entry_nothing:
  "r \<in> fst ` set m \<Longrightarrow> extend_entry r [] [] m = m"
  by (auto simp: extend_entry_def intro!: map_idI)

text \<open>
  Responses that arrive within the window of one another, from the moment a debounced call
  is pending at \<open>now + 100\<close>: they accumulate, restart the timer and flush nothing.
\<close>

lemma responses_accumulate:
  assumes "flushAt s = Some (now s + 100)" "r \<in> rootSegments s"
    and "within_window (now s) rs" "awaited (map fst rs) (outstanding s)"
    and "\<forall>x \<in> set rs. rootID (fst x) = r"
    and "r \<in> fst ` set (requestedChildChunks s)"
  shows "requestedChildChunks (run gt gb (responses rs) s) =
           extend_entry r (concat (map (\<lambda>x. fst (snd x)) rs)) (map (\<lambda>x. segmentID (fst x)) rs)
             (requestedChildChunks s) \<and>
         flushAt (run gt gb (responses rs) s) = Some (last_arrival (now s) rs + 100) \<and>
         now (run gt gb (responses rs) s) = last_arrival (now s) rs \<and>
         flushes (run gt gb (responses rs) s) = flushes s \<and>
         display_state (run gt gb (responses rs) s) = display_state s \<and>
         (\<forall>n. flushes (run gt gb (take n (responses rs)) s) = flushes s)"
  using assms
proof (induction rs arbitrary: s)
  case Nil
  then show ?case by (simp add: run_def last_arrival_def extend_entry_nothing)
next
  case (Cons x rs)
  obtain q children t where x: "x = (q, children, t)" by (cases x)
  from Cons.prems(3) x have t: "now s \<le> t" "t < now s + 100" and w: "within_window t rs"
    by simp_all
  from Cons.prems(4) x have q: "q \<in> set (outstanding s)"
    and aw: "awaited (map fst rs) (remove1 q (outstanding s))"
    by simp_all
  from Cons.prems(5) x have rq: "rootID q = r" and rr: "\<forall>x \<in> set rs. rootID (fst x) = r"
    by simp_all
  define sa where "sa = advance t s"
  have sa: "sa = s\<lparr>now := t\<rparr>"
    unfolding sa_def using Cons.prems(1) t by (intro advance_before) simp_all
  define sb where "sb = children_received q children (sa\<lparr>outstanding := remove1 q (outstanding sa)\<rparr>)"
  have m: "rootID q \<in> rootSegments (sa\<lparr>outstanding := remove1 q (outstanding sa)\<rparr>)"
    using rq Cons.prems(2) by (simp add: sa)
  note c = children_received_member [OF m, of children, folded sb_def]
  have b1: "requestedChildChunks sb = extend_entry r children [segmentID q] (requestedChildChunks s)"
    using c(1) rq by (simp add: sa push_children_extend)
  have b2: "flushAt sb = Some (now sb + 100)" "now sb = t" "flushes sb = flushes s"
    "display_state sb = display_state s" "rootSegments sb = rootSegments s"
    using c(2-5) by (simp_all add: sa display_state_def)
  have ob: "outstanding sb = remove1 q (outstanding s)"
    by (simp add: sb_def children_received_fields sa)
  have st: "step gt gb (ChildrenResolved q children) sa = sb"
    using q by (simp add: step_def sb_def sa)
  have run2: "run gt gb (responses (x # rs)) s = run gt gb (responses rs) sb"
    by (simp add: x run_def step_def [of gt gb "Clock t"] sa_def [symmetric] st)
  have ih: "requestedChildChunks (run gt gb (responses rs) sb) =
           extend_entry r (concat (map (\<lambda>x. fst (snd x)) rs)) (map (\<lambda>x. segmentID (fst x)) rs)
             (requestedChildChunks sb) \<and>
         flushAt (run gt gb (responses rs) sb) = Some (last_arrival (now sb) rs + 100) \<and>
         now (run gt gb (responses rs) sb) = last_arrival (now sb) rs \<and>
         flushes (run gt gb (responses rs) sb) = flushes sb \<and>
         display_state (run gt gb (responses rs) sb) = display_state sb \<and>
         (\<forall>n. flushes (run gt gb (take n (responses rs)) sb) = flushes sb)"
  proof (rule Cons.IH)
    show "flushAt sb = Some (now sb + 100)" by (rule b2(1))
    show "r \<in> rootSegments sb" using Cons.prems(2) by (simp add: b2(5))
    show "within_window (now sb) rs" using w by (simp add: b2(2))
    show "awaited (map fst rs) (outstanding sb)" using aw by (simp add: ob)
    show "\<forall>x \<in> set rs. rootID (fst x) = r" by (rule rr)
    show "r \<in> fst ` set (requestedChildChunks sb)" unfolding b1 by (rule extend_entry_keys)
  qed
  have la: "last_arrival (now sb) rs = last_arrival (now s) (x # rs)"
    by (simp add: last_arrival_def b2(2) x)
  have ext: "extend_entry r (concat (map (\<lambda>x. fst (snd x)) rs)) (map (\<lambda>x. segmentID (fst x)) rs)
             (requestedChildChunks sb) =
        extend_entry r (concat (map (\<lambda>x. fst (snd x)) (x # rs))) (map (\<lambda>x. segmentID (fst x)) (x # rs))
             (requestedChildChunks s)"
    by (simp add: b1 extend_entry_extend x)
  have pre: "flushes (run gt gb (take n (responses (x # rs))) s) = flushes s" for n
  proof (cases n)
    case 0
    then show ?thesis by (simp add: run_def)
  next
    case (Suc n1)
    show ?thesis
    proof (cases n1)
      case 0
      with Suc show ?thesis by (simp add: x run_def step_def sa_def [symmetric] sa)
    next
      case (Suc n2)
      with \<open>n = Suc n1\<close> have "run gt gb (take n (responses (x # rs))) s =
          run gt gb (take n2 (responses rs)) sb"
        by (simp add: x run_def step_def [of gt gb "Clock t"] sa_def [symmetric] st)
      with ih show ?thesis by (simp add: b2(3))
    qed
  qed
  from ih pre show ?case
    unfolding run2 la ext by (simp add: b2)
qed

text \<open>
  Claim C3. Any number of children responses for the same root \<open>r\<close> (a member of the root
  set), each arriving less than 100 ms after the one before: the first, of query \<open>q1\<close> with
  children \<open>c1\<close>, arrives now, the others, \<open>rest\<close>, at their times. Whatever was pending
  before and whether or not a timer was running: the pending entry of \<open>r\<close> is then extended
  by (or created with) the concatenation of all the \<open>add\<close> lists and all the deleted
  segments; no flush happens while the responses arrive, nor before 100 ms have passed
  since the last; once the clock reaches that time exactly one flush has happened, it has
  applied the pending map (for a map empty before: the union of the children is added and
  linked to \<open>r\<close>, and the segments removed), and the pending map is empty. After any
  flush the pending map is empty, whatever the membership checks gave.
\<close>

theorem two_responses_one_flush:
  assumes aw: "awaited (q1 # map fst rest) (outstanding s)"
    and r1: "rootID q1 = r" and rr: "\<forall>x \<in> set rest. rootID (fst x) = r"
    and rs: "r \<in> rootSegments s"
    and w: "within_window (now s) rest"
    and T: "last_arrival (now s) rest + 100 \<le> T"
    and trace: "trace = ChildrenResolved q1 c1 # responses rest"
    and s2: "s2 = run getPriorityTier getBasePriority trace s"
    and s3: "s3 = step getPriorityTier getBasePriority (Clock T) s2"
    and adds: "adds = c1 @ concat (map (\<lambda>x. fst (snd x)) rest)"
    and dels: "dels = segmentID q1 # map (\<lambda>x. segmentID (fst x)) rest"
  shows "requestedChildChunks s2 = extend_entry r adds dels (requestedChildChunks s) \<and>
         (\<forall>n. flushes (run getPriorityTier getBasePriority (take n trace) s) = flushes s) \<and>
         (\<forall>t. t < last_arrival (now s) rest + 100 \<longrightarrow>
              flushes (step getPriorityTier getBasePriority (Clock t) s2) = flushes s) \<and>
         flushes s3 = flushes s + 1 \<and>
         display_state s3 = fold entry_effect (requestedChildChunks s2) (display_state s) \<and>
         (requestedChildChunks s = [] \<longrightarrow>
            display_state s3 =
              (rootSegments s, visibleSegments3D s \<union> set adds - set dels,
               segmentEquivalences s @ map (Pair r) adds)) \<and>
         requestedChildChunks s3 = [] \<and>
         requestedChildChunks (handleChildChunks s') = []"
proof -
  define sa where "sa = children_received q1 c1 (s\<lparr>outstanding := remove1 q1 (outstanding s)\<rparr>)"
  from aw have q1: "q1 \<in> set (outstanding s)" and aw': "awaited (map fst rest) (remove1 q1 (outstanding s))"
    by simp_all
  have m1: "rootID q1 \<in> rootSegments (s\<lparr>outstanding := remove1 q1 (outstanding s)\<rparr>)"
    using r1 rs by simp
  note a = children_received_member [OF m1, of c1, folded sa_def]
  have a1: "requestedChildChunks sa = extend_entry r c1 [segmentID q1] (requestedChildChunks s)"
    using a(1) r1 by (simp add: push_children_extend)
  have a2: "flushAt sa = Some (now sa + 100)" "now sa = now s" "flushes sa = flushes s"
    "display_state sa = display_state s" "rootSegments sa = rootSegments s"
    using a(2-5) by (simp_all add: display_state_def)
  have oa: "outstanding sa = remove1 q1 (outstanding s)"
    by (simp add: sa_def children_received_fields)
  have st: "step getPriorityTier getBasePriority (ChildrenResolved q1 c1) s = sa"
    using q1 by (simp add: step_def sa_def)
  have acc: "requestedChildChunks (run getPriorityTier getBasePriority (responses rest) sa) =
           extend_entry r (concat (map (\<lambda>x. fst (snd x)) rest)) (map (\<lambda>x. segmentID (fst x)) rest)
             (requestedChildChunks sa) \<and>
         flushAt (run getPriorityTier getBasePriority (responses rest) sa) =
           Some (last_arrival (now sa) rest + 100) \<and>
         now (run getPriorityTier getBasePriority (responses rest) sa) = last_arrival (now sa) rest \<and>
         flushes (run getPriorityTier getBasePriority (responses rest) sa) = flushes sa \<and>
         display_state (run getPriorityTier getBasePriority (responses rest) sa) = display_state sa \<and>
         (\<forall>n. flushes (run getPriorityTier getBasePriority (take n (responses rest)) sa) = flushes sa)"
  proof (rule responses_accumulate)
    show "flushAt sa = Some (now sa + 100)" by (rule a2(1))
    show "r \<in> rootSegments sa" using rs by (simp add: a2(5))
    show "within_window (now sa) rest" using w by (simp add: a2(2))
    show "awaited (map fst rest) (outstanding sa)" using aw' by (simp add: oa)
    show "\<forall>x \<in> set rest. rootID (fst x) = r" by (rule rr)
    show "r \<in> fst ` set (requestedChildChunks sa)" unfolding a1 by (rule extend_entry_keys)
  qed
  have s2': "s2 = run getPriorityTier getBasePriority (responses rest) sa"
    by (simp add: s2 trace run_def st)
  define L where "L = last_arrival (now s) rest"
  have c1: "requestedChildChunks s2 = extend_entry r adds dels (requestedChildChunks s)"
    using acc by (simp add: s2' a1 extend_entry_extend adds dels)
  have c2: "flushAt s2 = Some (L + 100)" "now s2 = L" "flushes s2 = flushes s"
    "display_state s2 = display_state s"
    using acc by (simp_all add: s2' a2 L_def)
  have pre: "flushes (run getPriorityTier getBasePriority (take n trace) s) = flushes s" for n
  proof (cases n)
    case 0
    then show ?thesis by (simp add: run_def)
  next
    case (Suc n1)
    then have "run getPriorityTier getBasePriority (take n trace) s =
        run getPriorityTier getBasePriority (take n1 (responses rest)) sa"
      by (simp add: trace run_def st)
    with acc show ?thesis by (simp add: a2(3))
  qed
  have early: "flushes (step getPriorityTier getBasePriority (Clock t) s2) = flushes s" if "t < L + 100" for t
  proof (cases "t < L")
    case True
    then show ?thesis by (simp add: step_def advance_def c2)
  next
    case False
    then have "advance t s2 = s2\<lparr>now := t\<rparr>"
      using that c2(1,2) by (intro advance_before) simp_all
    then show ?thesis by (simp add: step_def c2)
  qed
  have fire: "s3 = (handleChildChunks s2)\<lparr>now := T, flushAt := None, flushes := flushes s2 + 1\<rparr>"
    unfolding s3 step_def using c2(1,2) T by (simp add: advance_due L_def)
  have d3: "display_state s3 = fold entry_effect (requestedChildChunks s2) (display_state s)"
    using handleChildChunks_display [of s2] by (simp add: fire c2(4)) (simp add: display_state_def)
  have d3': "display_state s3 =
              (rootSegments s, visibleSegments3D s \<union> set adds - set dels,
               segmentEquivalences s @ map (Pair r) adds)"
    if "requestedChildChunks s = []"
  proof -
    have "fold entry_effect (requestedChildChunks s2) (display_state s) =
              (rootSegments s, visibleSegments3D s \<union> set adds - set dels,
               segmentEquivalences s @ map (Pair r) adds)"
      using rs by (simp add: c1 that extend_entry_def entry_effect_def display_state_def)
    then show ?thesis by (simp only: d3)
  qed
  show ?thesis
    using c1 c2(3) pre early d3 d3'
    by (simp add: fire requestedChildChunks_handleChildChunks L_def)
qed

text \<open>
  Three responses for root 5, at times 0, 40 and 120: each within 100 ms of the one before,
  the last more than 100 ms after the first. One flush, at 220, applies all three.
\<close>

theorem two_responses_one_flush_witness:
  "awaited (example_query # map fst [(example_query2, [9], 40), (example_query3, [], 120)])
     (outstanding batching_layer) \<and>
   rootID example_query = 5 \<and> rootID example_query2 = 5 \<and> rootID example_query3 = 5 \<and>
   5 \<in> rootSegments batching_layer \<and>
   within_window (now batching_layer) [(example_query2, [9], 40), (example_query3, [], 120)] \<and>
   last_arrival (now batching_layer) [(example_query2, [9], 40), (example_query3, [], 120)] + 100 \<le> 220 \<and>
   requestedChildChunks
     (run example_getPriorityTier example_getBasePriority
        [ChildrenResolved example_query [7, 8], Clock 40, ChildrenResolved example_query2 [9],
         Clock 120, ChildrenResolved example_query3 []]
        batching_layer) = [(5, \<lparr>add = [7, 8, 9], delete = [5, 6, 9]\<rparr>)] \<and>
   flushes
     (run example_getPriorityTier example_getBasePriority
        [ChildrenResolved example_query [7, 8], Clock 40, ChildrenResolved example_query2 [9],
         Clock 120, ChildrenResolved example_query3 []]
        batching_layer) = 0 \<and>
   flushes
     (run example_getPriorityTier example_getBasePriority
        [ChildrenResolved example_query [7, 8], Clock 40, ChildrenResolved example_query2 [9],
         Clock 120, ChildrenResolved example_query3 [], Clock 219]
        batching_layer) = 0 \<and>
   flushes
     (run example_getPriorityTier example_getBasePriority
        [ChildrenResolved example_query [7, 8], Clock 40, ChildrenResolved example_query2 [9],
         Clock 120, ChildrenResolved example_query3 [], Clock 220]
        batching_layer) = 1 \<and>
   display_state
     (run example_getPriorityTier example_getBasePriority
        [ChildrenResolved example_query [7, 8], Clock 40, ChildrenResolved example_query2 [9],
         Clock 120, ChildrenResolved example_query3 [], Clock 220]
        batching_layer) = ({5}, {7, 8}, [(5, 7), (5, 8), (5, 9)]) \<and>
   requestedChildChunks
     (run example_getPriorityTier example_getBasePriority
        [ChildrenResolved example_query [7, 8], Clock 40, ChildrenResolved example_query2 [9],
         Clock 120, ChildrenResolved example_query3 [], Clock 220]
        batching_layer) = []"
proof -
  define rest where "rest = [(example_query2, [9 :: Uint64], 40 :: nat), (example_query3, [], 120)]"
  define trace where "trace = ChildrenResolved example_query [7, 8] # responses rest"
  have tr: "trace = [ChildrenResolved example_query [7, 8], Clock 40, ChildrenResolved example_query2 [9],
         Clock 120, ChildrenResolved example_query3 []]"
    by (simp add: trace_def rest_def)
  have h: "awaited (example_query # map fst rest) (outstanding batching_layer)"
    "rootID example_query = 5" "\<forall>x \<in> set rest. rootID (fst x) = 5" "5 \<in> rootSegments batching_layer"
    "within_window (now batching_layer) rest" "last_arrival (now batching_layer) rest + 100 \<le> 220"
    by (simp_all add: rest_def batching_layer_def example_layer_def example_query_def
          example_query2_def example_query3_def last_arrival_def)
  have e: "requestedChildChunks batching_layer = []" "flushes batching_layer = 0"
    "rootSegments batching_layer = {5}" "visibleSegments3D batching_layer = {5, 6}"
    "segmentEquivalences batching_layer = []"
    "segmentID example_query = 5" "segmentID example_query2 = 6" "segmentID example_query3 = 9"
    "rootID example_query2 = 5" "rootID example_query3 = 5"
    "last_arrival (now batching_layer) rest = 120"
    by (simp_all add: batching_layer_def example_layer_def example_query_def example_query2_def
          example_query3_def last_arrival_def rest_def)
  have split: "run example_getPriorityTier example_getBasePriority (trace @ [Clock t]) batching_layer =
      step example_getPriorityTier example_getBasePriority (Clock t)
        (run example_getPriorityTier example_getBasePriority trace batching_layer)" for t
    by (simp add: run_def)
  have v: "{5, 6} \<union> {7, 8, 9} - {5, 6, 9 :: Uint64} = {7, 8}" by auto
  note th = two_responses_one_flush [OF h trace_def refl refl refl refl,
      where getPriorityTier = example_getPriorityTier and getBasePriority = example_getBasePriority,
      folded split]
  from th have p1: "requestedChildChunks
     (run example_getPriorityTier example_getBasePriority trace batching_layer) =
       [(5, \<lparr>add = [7, 8, 9], delete = [5, 6, 9]\<rparr>)]"
    by (simp add: e extend_entry_def rest_def)
  from th have "\<forall>n. flushes (run example_getPriorityTier example_getBasePriority (take n trace)
      batching_layer) = flushes batching_layer"
    by blast
  then have "flushes (run example_getPriorityTier example_getBasePriority (take (length trace) trace)
      batching_layer) = flushes batching_layer"
    by blast
  then have p2: "flushes (run example_getPriorityTier example_getBasePriority trace batching_layer) = 0"
    by (simp add: e)
  from th have "\<forall>t. t < last_arrival (now batching_layer) rest + 100 \<longrightarrow>
      flushes (run example_getPriorityTier example_getBasePriority (trace @ [Clock t]) batching_layer) =
      flushes batching_layer"
    by blast
  then have p3: "flushes (run example_getPriorityTier example_getBasePriority (trace @ [Clock 219])
      batching_layer) = 0"
    by (simp add: e)
  from th have p4: "flushes (run example_getPriorityTier example_getBasePriority (trace @ [Clock 220])
      batching_layer) = 1"
    by (simp add: e)
  from th e(1) have "display_state
     (run example_getPriorityTier example_getBasePriority (trace @ [Clock 220]) batching_layer) =
      (rootSegments batching_layer,
       visibleSegments3D batching_layer \<union>
         set ([7, 8] @ concat (map (\<lambda>x. fst (snd x)) rest)) -
         set (segmentID example_query # map (\<lambda>x. segmentID (fst x)) rest),
       segmentEquivalences batching_layer @ map (Pair 5) ([7, 8] @ concat (map (\<lambda>x. fst (snd x)) rest)))"
    by blast
  then have p5: "display_state
     (run example_getPriorityTier example_getBasePriority (trace @ [Clock 220]) batching_layer) =
       ({5}, {7, 8}, [(5, 7), (5, 8), (5, 9)])"
    using v by (simp add: e rest_def)
  from th have p6: "requestedChildChunks
     (run example_getPriorityTier example_getBasePriority (trace @ [Clock 220]) batching_layer) = []"
    by blast
  from h(1,2,4,5,6) e(9,10) p1 p2 p3 p4 p5 p6 show ?thesis
    unfolding tr rest_def by simp
qed

section \<open>Chunked-graph leaf download: properties\<close>

lemma leaf_requests_unresolved:
  "leaf_requests p bounds ms =
     map (\<lambda>k. (k, p @ ''/'' @ k @ ''/leaves?bounds='' @ bounds))
       (map fst (filter (\<lambda>(k, val). val = None) ms))"
  by (induction ms) (auto simp: leaf_requests_def)

lemma rejections_empty:
  "rejections outcomes order = [] \<longleftrightarrow>
     (\<forall>i \<in> set order. i < length outcomes \<longrightarrow> (\<exists>v. outcomes ! i = Inr v))"
  by (induction order) (auto simp: rejections_def split: sum.splits)

lemma rejections_Cons:
  "rejections outcomes (i # order) =
     (if i < length outcomes then (case outcomes ! i of Inl e \<Rightarrow> [e] | Inr _ \<Rightarrow> []) else []) @
     rejections outcomes order"
  by (simp add: rejections_def)

lemma rejections_member:
  "e \<in> set (rejections outcomes order) \<Longrightarrow>
     \<exists>i \<in> set order. i < length outcomes \<and> outcomes ! i = Inl e"
proof (induction order)
  case Nil
  then show ?case by (simp add: rejections_def)
next
  case (Cons i order)
  show ?case
  proof (cases "e \<in> set (rejections outcomes order)")
    case True
    from Cons.IH [OF this] show ?thesis by auto
  next
    case False
    have "i < length outcomes \<and> outcomes ! i = Inl e"
      using Cons.prems False unfolding rejections_Cons
      by (cases "i < length outcomes"; cases "outcomes ! i") simp_all
    then show ?thesis by auto
  qed
qed

lemma Promise_all_Fulfilled:
  assumes "Promise_all outcomes order = Fulfilled vs"
  shows "\<forall>i < length outcomes. i \<in> set order \<and> (\<exists>v. outcomes ! i = Inr v)"
proof -
  from assms have r: "rejections outcomes order = []" and a: "\<forall>i < length outcomes. i \<in> set order"
    by (auto simp: Promise_all_def split: list.splits if_splits)
  from r a show ?thesis by (auto simp: rejections_empty)
qed

lemma Promise_all_Rejected:
  assumes "i \<in> set order" "i < length outcomes" "outcomes ! i = Inl e"
  shows "\<exists>e'. Promise_all outcomes order = Rejected e'"
proof -
  from assms have "rejections outcomes order \<noteq> []"
    by (auto simp: rejections_empty)
  then show ?thesis
    by (cases "rejections outcomes order") (simp_all add: Promise_all_def)
qed

lemma Promise_all_Rejected_by:
  assumes "Promise_all outcomes order = Rejected e"
  shows "\<exists>i \<in> set order. i < length outcomes \<and> outcomes ! i = Inl e"
proof -
  from assms obtain es where "rejections outcomes order = e # es"
    by (auto simp: Promise_all_def split: list.splits if_splits)
  then have "e \<in> set (rejections outcomes order)" by simp
  then show ?thesis by (rule rejections_member)
qed

lemma sub_request_Inr:
  "(\<exists>v. sub_request fetch decode urls (k, p) = Inr v) \<longleftrightarrow>
     (\<exists>response leaves. fetch urls p = Inr response \<and> decode k response = Inr leaves)"
  by (auto simp: sub_request_def split: sum.splits)

lemma sub_request_Inl:
  "sub_request fetch decode urls (k, p) = Inl e \<longleftrightarrow>
     fetch urls p = Inl e \<or> (\<exists>response. fetch urls p = Inr response \<and> decode k response = Inl e)"
  by (auto simp: sub_request_def split: sum.splits)

text \<open>
  Claim C6. The download sends one \<open>leaves?bounds=...\<close> request for every root whose
  mapping in the chunk is unresolved, all at once. Whenever the returned promise is fulfilled,
  every one of the sub-requests has settled, its transport having answered and the decoder
  having accepted the answer. As soon as a sub-request is among the settled ones whose
  transport failed, or whose answer the decoder threw on, the returned promise is rejected;
  and the error of a rejected download is the transport's or the decoder's error of one of
  the settled sub-requests. \<open>order\<close> is which of the sub-requests have settled so far.
\<close>

theorem download_fan_out_fan_in:
  assumes "d = download fetch decode parameters chunkPosition c order"
    and "request = leaves_request parameters chunkPosition c"
    and "urls = baseUrls parameters"
    and "keys = unresolved c"
  shows "sent d = map request keys \<and>
         (returned d = Fulfilled () \<longrightarrow>
            (\<forall>i < length keys. i \<in> set order \<and>
               (\<exists>response leaves. fetch urls (request (keys ! i)) = Inr response \<and>
                                  decode (keys ! i) response = Inr leaves))) \<and>
         (\<forall>i \<in> set order. i < length keys \<longrightarrow>
            (\<forall>e. fetch urls (request (keys ! i)) = Inl e \<longrightarrow> (\<exists>e'. returned d = Rejected e')) \<and>
            (\<forall>response e. fetch urls (request (keys ! i)) = Inr response \<and>
                           decode (keys ! i) response = Inl e \<longrightarrow>
               (\<exists>e'. returned d = Rejected e'))) \<and>
         (\<forall>e. returned d = Rejected e \<longrightarrow>
            (\<exists>i \<in> set order. i < length keys \<and>
               (fetch urls (request (keys ! i)) = Inl e \<or>
                (\<exists>response. fetch urls (request (keys ! i)) = Inr response \<and>
                             decode (keys ! i) response = Inl e))))"
proof -
  define outcomes where
    "outcomes = map (sub_request fetch decode urls) (map (\<lambda>k. (k, request k)) keys)"
  have reqs: "leaf_requests (path parameters) (bounds_string chunkPosition (chunkDataSize c))
                (mappings c) = map (\<lambda>k. (k, request k)) keys"
    by (simp add: leaf_requests_unresolved assms(2,4) leaves_request_def unresolved_def)
  have s: "sent d = map request keys"
    by (simp add: assms(1) download_def Let_def reqs comp_def)
  have l: "length outcomes = length keys"
    by (simp add: outcomes_def)
  have o: "outcomes ! i = sub_request fetch decode urls (keys ! i, request (keys ! i))"
    if "i < length keys" for i
    using that by (simp add: outcomes_def)
  have r: "returned d = (case Promise_all outcomes order of
                        Pending \<Rightarrow> Pending
                      | Fulfilled _ \<Rightarrow> Fulfilled ()
                      | Rejected e \<Rightarrow> Rejected e)"
    by (simp add: assms(1,3) download_def Let_def reqs outcomes_def)
  have f: "\<forall>i < length keys. i \<in> set order \<and>
               (\<exists>response leaves. fetch urls (request (keys ! i)) = Inr response \<and>
                                  decode (keys ! i) response = Inr leaves)"
    if "returned d = Fulfilled ()"
  proof -
    from that r obtain vs where "Promise_all outcomes order = Fulfilled vs"
      by (cases "Promise_all outcomes order") simp_all
    from Promise_all_Fulfilled [OF this] l
    have "\<forall>i < length keys. i \<in> set order \<and> (\<exists>v. outcomes ! i = Inr v)" by simp
    then show ?thesis using sub_request_Inr [of fetch decode urls] by (auto simp: o)
  qed
  have j: "\<exists>e'. returned d = Rejected e'"
    if "i \<in> set order" "i < length keys" "outcomes ! i = Inl e" for i e
  proof -
    from Promise_all_Rejected [OF that(1) _ that(3)] that(2) l
    obtain e' where "Promise_all outcomes order = Rejected e'" by auto
    then show ?thesis by (simp add: r)
  qed
  have t: "\<exists>e'. returned d = Rejected e'"
    if "i \<in> set order" "i < length keys" "fetch urls (request (keys ! i)) = Inl e" for i e
    using that by (intro j [of i e]) (simp_all add: o sub_request_Inl)
  have u: "\<exists>e'. returned d = Rejected e'"
    if "i \<in> set order" "i < length keys" "fetch urls (request (keys ! i)) = Inr response"
      "decode (keys ! i) response = Inl e" for i e response
    using that by (intro j [of i e]) (simp_all add: o sub_request_Inl)
  have b: "\<exists>i \<in> set order. i < length keys \<and>
               (fetch urls (request (keys ! i)) = Inl e \<or>
                (\<exists>response. fetch urls (request (keys ! i)) = Inr response \<and>
                             decode (keys ! i) response = Inl e))"
    if "returned d = Rejected e" for e
  proof -
    from that r have "Promise_all outcomes order = Rejected e"
      by (cases "Promise_all outcomes order") simp_all
    from Promise_all_Rejected_by [OF this] l obtain i where
      "i \<in> set order" "i < length keys" "outcomes ! i = Inl e" by auto
    then show ?thesis by (auto simp: o sub_request_Inl)
  qed
  from s f t u b show ?thesis by blast
qed

lemma example_unresolved: "unresolved example_chunk = [''5'', ''7'']"
  by (simp add: unresolved_def example_chunk_def)

lemma example_requests:
  "leaves_request example_parameters (0, 0, 0) example_chunk ''5'' =
     ''/1.0/segment/5/leaves?bounds=0-64_0-64_0-32''"
  "leaves_request example_parameters (0, 0, 0) example_chunk ''7'' =
     ''/1.0/segment/7/leaves?bounds=0-64_0-64_0-32''"
  by code_simp+

lemma example_download_ok:
  "returned (download example_fetch_ok example_decode example_parameters (0, 0, 0) example_chunk [1, 0])
     = Fulfilled ()"
  by code_simp

lemma example_download_failed:
  "download example_fetch example_decode example_parameters (0, 0, 0) example_chunk [0, 1] =
     \<lparr>sent = [''/1.0/segment/5/leaves?bounds=0-64_0-64_0-32'',
              ''/1.0/segment/7/leaves?bounds=0-64_0-64_0-32''],
      returned = Rejected (HttpError 500),
      chunkAfter = \<lparr>chunkDataSize = (64, 64, 32),
                     mappings = [(''5'', Some []), (''6'', Some [1]), (''7'', None)]\<rparr>\<rparr>"
  by code_simp

lemma example_download_undecodable:
  "download example_fetch_ok example_decode_failing example_parameters (0, 0, 0) example_chunk [1, 0] =
     \<lparr>sent = [''/1.0/segment/5/leaves?bounds=0-64_0-64_0-32'',
              ''/1.0/segment/7/leaves?bounds=0-64_0-64_0-32''],
      returned = Rejected (Error ''invalid supervoxel array''),
      chunkAfter = \<lparr>chunkDataSize = (64, 64, 32),
                     mappings = [(''5'', None), (''6'', Some [1]), (''7'', Some [])]\<rparr>\<rparr>"
  by code_simp

text \<open>
  In the example, with both sub-requests answered and decoded the download is fulfilled, and
  both have settled; with the transport failing on root 7 it is rejected with the
  transport's error; with the decoder throwing on the answer for root 5 it is rejected with
  the decoder's error.
\<close>

theorem download_fan_out_fan_in_witness:
  "returned (download example_fetch_ok example_decode example_parameters (0, 0, 0) example_chunk [1, 0])
     = Fulfilled () \<and>
   unresolved example_chunk = [''5'', ''7''] \<and>
   (0 :: nat) \<in> set [1, 0] \<and> (1 :: nat) \<in> set [1, 0] \<and>
   example_fetch_ok (baseUrls example_parameters)
     (leaves_request example_parameters (0, 0, 0) example_chunk ''5'') = Inr [] \<and>
   example_decode ''5'' [] = Inr [] \<and>
   (1 :: nat) \<in> set [0, 1] \<and>
   example_fetch (baseUrls example_parameters)
     (leaves_request example_parameters (0, 0, 0) example_chunk ''7'') = Inl (HttpError 500) \<and>
   sent (download example_fetch example_decode example_parameters (0, 0, 0) example_chunk [0, 1]) =
     [''/1.0/segment/5/leaves?bounds=0-64_0-64_0-32'',
      ''/1.0/segment/7/leaves?bounds=0-64_0-64_0-32''] \<and>
   returned (download example_fetch example_decode example_parameters (0, 0, 0) example_chunk [0, 1]) =
     Rejected (HttpError 500) \<and>
   example_fetch_ok (baseUrls example_parameters)
     (leaves_request example_parameters (0, 0, 0) example_chunk ''5'') = Inr [] \<and>
   example_decode_failing ''5'' [] = Inl (Error ''invalid supervoxel array'') \<and>
   returned (download example_fetch_ok example_decode_failing example_parameters (0, 0, 0)
               example_chunk [1, 0]) = Rejected (Error ''invalid supervoxel array'')"
proof -
  note ok = download_fan_out_fan_in [OF refl refl refl refl, of example_fetch_ok example_decode
      example_parameters "(0, 0, 0)" example_chunk "[1, 0]"]
  note failed = download_fan_out_fan_in [OF refl refl refl refl, of example_fetch example_decode
      example_parameters "(0, 0, 0)" example_chunk "[0, 1]"]
  note undecodable = download_fan_out_fan_in [OF refl refl refl refl, of example_fetch_ok
      example_decode_failing example_parameters "(0, 0, 0)" example_chunk "[1, 0]"]
  have l: "length (unresolved example_chunk) = 2" by (simp add: example_unresolved)
  from ok example_download_ok
  have "\<forall>i < length (unresolved example_chunk). i \<in> set [1, 0 :: nat]"
    by blast
  with l have a: "(0 :: nat) \<in> set [1, 0]" "(1 :: nat) \<in> set [1, 0]" by simp_all
  have f5: "example_fetch_ok (baseUrls example_parameters)
     (leaves_request example_parameters (0, 0, 0) example_chunk ''5'') = Inr []"
    by (simp add: example_fetch_ok_def)
  have d5: "example_decode ''5'' [] = Inr []"
    by (simp add: example_decode_def)
  have b: "(1 :: nat) \<in> set [0, 1]" "1 < length (unresolved example_chunk)"
    "0 < length (unresolved example_chunk)"
    by (simp_all add: example_unresolved)
  have f7: "example_fetch (baseUrls example_parameters)
     (leaves_request example_parameters (0, 0, 0) example_chunk (unresolved example_chunk ! 1)) =
       Inl (HttpError 500)"
    by (simp add: example_unresolved example_requests example_fetch_def)
  from failed b(1,2) f7
  have "\<exists>e'. returned (download example_fetch example_decode example_parameters (0, 0, 0)
                example_chunk [0, 1]) = Rejected e'"
    by blast
  then have c: "returned (download example_fetch example_decode example_parameters (0, 0, 0)
                example_chunk [0, 1]) = Rejected (HttpError 500)"
    by (simp only: example_download_failed download_result.select_convs)
  have d: "sent (download example_fetch example_decode example_parameters (0, 0, 0) example_chunk [0, 1]) =
     [''/1.0/segment/5/leaves?bounds=0-64_0-64_0-32'',
      ''/1.0/segment/7/leaves?bounds=0-64_0-64_0-32'']"
    by (simp only: example_download_failed download_result.select_convs)
  have f5': "example_fetch_ok (baseUrls example_parameters)
     (leaves_request example_parameters (0, 0, 0) example_chunk (unresolved example_chunk ! 0)) = Inr []"
    by (simp add: example_fetch_ok_def)
  have x5: "example_decode_failing (unresolved example_chunk ! 0) [] =
      Inl (Error ''invalid supervoxel array'')"
    by (simp add: example_unresolved example_decode_failing_def)
  from undecodable a(1) b(3) f5' x5
  have "\<exists>e'. returned (download example_fetch_ok example_decode_failing example_parameters (0, 0, 0)
                example_chunk [1, 0]) = Rejected e'"
    by blast
  then have g: "returned (download example_fetch_ok example_decode_failing example_parameters (0, 0, 0)
                example_chunk [1, 0]) = Rejected (Error ''invalid supervoxel array'')"
    by (simp only: example_download_undecodable download_result.select_convs)
  have f7': "example_fetch (baseUrls example_parameters)
     (leaves_request example_parameters (0, 0, 0) example_chunk ''7'') = Inl (HttpError 500)"
    using f7 by (simp add: example_unresolved)
  have x5': "example_decode_failing ''5'' [] = Inl (Error ''invalid supervoxel array'')"
    using x5 by (simp add: example_unresolved)
  from example_download_ok example_unresolved a f5 d5 b(1) f7' d c x5' g show ?thesis by blast
qed

section \<open>Vertex normals: properties\<close>


















lemma normalize_all_length: "length (normalize_all xs) = length xs"
  by (induction xs rule: normalize_all.induct) (simp_all split: prod.splits)




subsection \<open>The example meshes\<close>


















end
